theory Spec2Isabelle
  imports Main "HOL-Library.AList"
begin
section \<open>Exceptions\<close>

text \<open>
  The exceptions the modelled code can raise. A function that can raise returns
  \<open>error + 'a\<close>, with \<open>Inl\<close> for the exception. \<open>RegexError\<close> is the \<open>error\<close> of the
  module \<open>re\<close>.
\<close>

datatype error =
  TypeError | KeyError | IndexError | AssertionError | AttributeError | NotImplementedError
  | RegexError

section \<open>Helpers of the Python library\<close>

text \<open>
  \<open>itertools.permutations(xs, r)\<close>: the tuples of \<open>r\<close> elements taken at pairwise different
  positions of \<open>xs\<close>, in lexicographic order of the positions.
\<close>

fun permutations :: "'a list \<Rightarrow> nat \<Rightarrow> 'a list list" where
  "permutations xs 0 = [[]]"
| "permutations xs (Suc r) =
     concat (map (\<lambda>i. map (\<lambda>p. xs ! i # p) (permutations (take i xs @ drop (Suc i) xs) r))
       [0..<length xs])"

text \<open>\<open>xs.index(x)\<close> for an \<open>x\<close> that occurs in \<open>xs\<close> (the only use the sources make of it).\<close>

fun index_of :: "'a list \<Rightarrow> 'a \<Rightarrow> nat" where
  "index_of [] x = 0"
| "index_of (y # ys) x = (if x = y then 0 else Suc (index_of ys x))"

section \<open>Automata: the control of a construction\<close>

text \<open>
  Modelled from the spec: the classes \<open>FSA\<close> and \<open>FST\<close> of module \<open>fst\<close> are missing from
  the sources. An automaton has one initial state, final states and transitions
  \<open>(state, matcher) \<rightarrow> (state, operators)\<close>. \<open>read(unit, dry_run)\<close> attempts the outgoing
  transition of the current state whose matcher accepts the unit; the operators of the
  transition run, in order, only when the read is not a dry run; when no transition
  matches the automaton is stuck (\<open>current_state = None\<close>), and every later read fails.
  A matcher is a pure test of a unit. The operators act on a world \<open>'w\<close>, which holds
  everything they can mutate. State names are the decimal strings \<open>str(i)\<close> in the
  sources; they are the numbers \<open>i\<close> here.
\<close>

record ('u, 'w) fsa =
  init_state :: "nat option"
  final_states :: "nat list"
  transitions :: "(nat \<times> ('u \<Rightarrow> bool) \<times> ('u \<Rightarrow> 'w \<Rightarrow> 'w) list \<times> nat) list"
  current_state :: "nat option"

definition FSA :: "('u, 'w) fsa" where
  "FSA = \<lparr>init_state = None, final_states = [], transitions = [], current_state = None\<rparr>"

definition add_state :: "nat \<Rightarrow> bool \<Rightarrow> bool \<Rightarrow> ('u, 'w) fsa \<Rightarrow> ('u, 'w) fsa" where
  "add_state q is_init is_final a =
     a\<lparr>init_state := (if is_init then Some q else init_state a),
       final_states := (if is_final then final_states a @ [q] else final_states a)\<rparr>"

definition add_transition ::
  "('u \<Rightarrow> bool) \<Rightarrow> ('u \<Rightarrow> 'w \<Rightarrow> 'w) list \<Rightarrow> nat \<Rightarrow> nat \<Rightarrow> ('u, 'w) fsa \<Rightarrow> ('u, 'w) fsa" where
  "add_transition matcher ops q q' a = a\<lparr>transitions := transitions a @ [(q, matcher, ops, q')]\<rparr>"

definition reset :: "('u, 'w) fsa \<Rightarrow> ('u, 'w) fsa" where
  "reset a = a\<lparr>current_state := init_state a\<rparr>"

definition read :: "'u \<Rightarrow> bool \<Rightarrow> ('u, 'w) fsa \<times> 'w \<Rightarrow> ('u, 'w) fsa \<times> 'w" where
  "read machine dry_run aw =
     (case current_state (fst aw) of
        None \<Rightarrow> aw
      | Some q \<Rightarrow>
          (case filter (\<lambda>t. fst t = q \<and> fst (snd t) machine) (transitions (fst aw)) of
             [] \<Rightarrow> ((fst aw)\<lparr>current_state := None\<rparr>, snd aw)
           | t # _ \<Rightarrow>
               ((fst aw)\<lparr>current_state := Some (snd (snd (snd t)))\<rparr>,
                if dry_run then snd aw
                else fold (\<lambda>operator. operator machine) (fst (snd (snd t))) (snd aw))))"

definition in_final :: "('u, 'w) fsa \<Rightarrow> bool" where
  "in_final a = (case current_state a of None \<Rightarrow> False | Some q \<Rightarrow> q \<in> set (final_states a))"

text \<open>
  The verdict of the spec on a sequence, stated without \<open>read\<close>: the automaton follows
  from its initial state, for each unit, the first transition of the state whose matcher
  accepts the unit, and accepts when it ends in a final state.
\<close>

definition next_state ::
  "(nat \<times> ('u \<Rightarrow> bool) \<times> ('u \<Rightarrow> 'w \<Rightarrow> 'w) list \<times> nat) list \<Rightarrow> nat option \<Rightarrow> 'u \<Rightarrow> nat option" where
  "next_state ts q machine =
     (case q of
        None \<Rightarrow> None
      | Some s \<Rightarrow>
          (case filter (\<lambda>t. fst t = s \<and> fst (snd t) machine) ts of
             [] \<Rightarrow> None
           | t # _ \<Rightarrow> Some (snd (snd (snd t)))))"

definition accepts :: "('u, 'w) fsa \<Rightarrow> 'u list \<Rightarrow> bool" where
  "accepts a seq =
     (case foldl (next_state (transitions a)) (init_state a) seq of
        None \<Rightarrow> False
      | Some q \<Rightarrow> q \<in> set (final_states a))"

section \<open>pymachine/construction.py\<close>

subsection \<open>Construction\<close>

datatype ctype = SEMANTIC | CHUNK | AVM

text \<open>
  The constructor raises \<open>TypeError\<close> when the control is not an \<open>FSA\<close>; here the type of
  the field excludes it.
\<close>

record ('u, 'w) construction =
  name :: string
  control :: "('u, 'w) fsa"
  ctype :: ctype

definition Construction_init :: "string \<Rightarrow> ('u, 'w) fsa \<Rightarrow> ctype \<Rightarrow> ('u, 'w) construction" where
  "Construction_init n c t = \<lparr>name = n, control = c, ctype = t\<rparr>"

text \<open>
  \<open>check\<close>, \<open>act\<close> and \<open>run\<close> mutate the control of the construction, and the reads of
  \<open>act\<close> mutate the world: each returns its result with the construction and the world
  it leaves. \<open>run\<close> calls \<open>self.check\<close> and \<open>self.act\<close>, the methods of the class of
  the receiver, which a subclass may override: they are the parameters \<open>self_check\<close> and
  \<open>self_act\<close> of \<open>Construction_run\<close>. \<open>run\<close> drops the verdict of \<open>check\<close> and asks the
  control again.
\<close>

definition Construction_check ::
  "('u, 'w, 'z) construction_scheme \<Rightarrow> 'w \<Rightarrow> 'u list
     \<Rightarrow> bool \<times> ('u, 'w, 'z) construction_scheme \<times> 'w" where
  "Construction_check c w seq =
     (let aw = fold (\<lambda>machine. read machine True) seq (reset (control c), w)
      in (in_final (fst aw), c\<lparr>control := fst aw\<rparr>, snd aw))"

definition Construction_last_check :: "('u, 'w, 'z) construction_scheme \<Rightarrow> 'u list \<Rightarrow> bool" where
  "Construction_last_check c seq = True"

definition Construction_act ::
  "('u, 'w, 'z) construction_scheme \<Rightarrow> 'w \<Rightarrow> 'u list
     \<Rightarrow> 'u list option \<times> ('u, 'w, 'z) construction_scheme \<times> 'w" where
  "Construction_act c w seq =
     (let aw = fold (\<lambda>machine. read machine False) seq (reset (control c), w)
      in (None, c\<lparr>control := fst aw\<rparr>, snd aw))"

definition Construction_run ::
  "(('u, 'w, 'z) construction_scheme \<Rightarrow> 'w \<Rightarrow> 'u list
      \<Rightarrow> bool \<times> ('u, 'w, 'z) construction_scheme \<times> 'w)
   \<Rightarrow> (('u, 'w, 'z) construction_scheme \<Rightarrow> 'w \<Rightarrow> 'u list
      \<Rightarrow> 'u list option \<times> ('u, 'w, 'z) construction_scheme \<times> 'w)
   \<Rightarrow> ('u, 'w, 'z) construction_scheme \<Rightarrow> 'w \<Rightarrow> 'u list
   \<Rightarrow> 'u list option \<times> ('u, 'w, 'z) construction_scheme \<times> 'w" where
  "Construction_run self_check self_act c w seq =
     (let r = self_check c w seq
      in if in_final (control (fst (snd r)))
         then self_act (fst (snd r)) (snd (snd r)) seq
         else (None, snd r))"

subsection \<open>NPConstruction\<close>

text \<open>
  The attribute structure \<open>control.kr\<close> of a unit and the patterns of the matchers are
  nested dictionaries with strings at the leaves. A dictionary is the list of its items
  in the order its iteration yields them, without repeated keys.
\<close>

datatype kr = KStr string | KDict "(string \<times> kr) list"

datatype tmpl = TStr string | TDict "(string \<times> tmpl) list"

text \<open>
  A matcher, as \<open>parse_rule\<close> (module \<open>np_parser\<close>, missing from the sources) returns it: its
  pattern, a dictionary, and its test of a unit.
\<close>

record 'u np_matcher =
  pattern :: "(string \<times> tmpl) list"
  match :: "'u \<Rightarrow> bool"

record ('u, 'w) np_construction = "('u, 'w) construction" +
  rule :: string
  matchers :: "'u np_matcher list"
  operators :: "('u list option \<Rightarrow> 'w \<Rightarrow> 'u list option \<times> 'w) list"

definition NP_create_control :: "'u np_matcher list \<Rightarrow> ('u, 'w) fsa" where
  "NP_create_control ms =
     fold (\<lambda>state a.
             add_transition (match (ms ! (state - 1))) [] (state - 1) state
               (add_state state False (state = length ms) a))
       [1..<length ms + 1] (add_state 0 True False FSA)"

definition NPConstruction_init ::
  "string \<Rightarrow> string \<Rightarrow> 'u np_matcher list
     \<Rightarrow> ('u list option \<Rightarrow> 'w \<Rightarrow> 'u list option \<times> 'w) list \<Rightarrow> ('u, 'w) np_construction" where
  "NPConstruction_init n r ms ops =
     construction.extend (Construction_init n (NP_create_control ms) CHUNK)
       (np_construction.fields r ms ops)"

text \<open>
  \<open>key in data\<close> and \<open>data[key]\<close>, for a \<open>data\<close> that is a dictionary or (where the
  attribute structure does not have the shape of the pattern) a string: \<open>in\<close> is then the
  substring test, and indexing a string by a string raises \<open>TypeError\<close>.
\<close>

fun str_contains :: "string \<Rightarrow> string \<Rightarrow> bool" where
  "str_contains [] k = (k = [])"
| "str_contains (c # cs) k = (take (length k) (c # cs) = k \<or> str_contains cs k)"

fun contains :: "kr \<Rightarrow> string \<Rightarrow> bool" where
  "contains (KDict d) key = (key \<in> fst ` set d)"
| "contains (KStr s) key = str_contains s key"

fun getitem :: "kr \<Rightarrow> string \<Rightarrow> error + kr" where
  "getitem (KDict d) key = (case map_of d key of None \<Rightarrow> Inl KeyError | Some v \<Rightarrow> Inr v)"
| "getitem (KStr s) key = Inl TypeError"

text \<open>
  \<open>greeks\<close> is a \<open>defaultdict(set)\<close>: variable \<open>\<rightarrow>\<close> the set of the values observed for it.
  \<open>greeks[var].add(v)\<close> needs a hashable \<open>v\<close>: a string, not a dictionary.
\<close>

type_synonym greeks = "(string \<times> string set) list"

definition greeks_add :: "string \<Rightarrow> string \<Rightarrow> greeks \<Rightarrow> greeks" where
  "greeks_add var v g =
     AList.update var (insert v (case map_of g var of None \<Rightarrow> {} | Some s \<Rightarrow> s)) g"

text \<open>
  \<open>_collect_variable_values(tmpl, data, greeks)\<close>: the loop over the keys of \<open>tmpl\<close>. At
  a key whose pattern is a dictionary the source returns the result of the recursive
  call: the keys after it are not visited.
\<close>

function collect_variable_values ::
  "(string \<times> tmpl) list \<Rightarrow> kr \<Rightarrow> greeks \<Rightarrow> error + (bool \<times> greeks)" where
  "collect_variable_values [] data g = Inr (True, g)"
| "collect_variable_values ((key, tv) # rest) data g =
     (if \<not> contains data key then Inr (False, g)
      else (case tv of
              TDict sub \<Rightarrow>
                (case getitem data key of
                   Inl e \<Rightarrow> Inl e
                 | Inr d \<Rightarrow> collect_variable_values sub d g)
            | TStr s \<Rightarrow>
                (case s of
                   [] \<Rightarrow> Inl IndexError
                 | ch # _ \<Rightarrow>
                     if ch = CHR ''@''
                     then (case getitem data key of
                             Inl e \<Rightarrow> Inl e
                           | Inr (KDict _) \<Rightarrow> Inl TypeError
                           | Inr (KStr v) \<Rightarrow> collect_variable_values rest data (greeks_add s v g))
                     else collect_variable_values rest data g)))"
  by pat_completeness auto
termination
  by (relation "measure (\<lambda>(t, d, g). size_list (size_prod (\<lambda>_. 0) size) t)") auto

text \<open>The loop of \<open>last_check\<close> over the positions of the sequence.\<close>

fun collect_seq ::
  "(string \<times> tmpl) list list \<Rightarrow> kr list \<Rightarrow> greeks \<Rightarrow> error + (bool \<times> greeks)" where
  "collect_seq (p # ps) (d # ds) g =
     (case collect_variable_values p d g of
        Inl e \<Rightarrow> Inl e
      | Inr (ok, g') \<Rightarrow> if ok then collect_seq ps ds g' else Inr (False, g'))"
| "collect_seq ps ds g = Inr (True, g)"

text \<open>
  The attribute structure has the shape of the pattern: it is a dictionary, the pattern
  has no empty string, and where the structure has a key of the pattern it has a
  dictionary for a dictionary and a string for a variable. This is what a successful
  \<open>check\<close> is meant to have established before \<open>last_check\<close> runs.
\<close>

function shape_ok :: "(string \<times> tmpl) list \<Rightarrow> kr \<Rightarrow> bool" where
  "shape_ok [] data = True"
| "shape_ok ((key, tv) # rest) data =
     (case data of
        KStr _ \<Rightarrow> False
      | KDict items \<Rightarrow>
          (case tv of
             TStr s \<Rightarrow>
               s \<noteq> [] \<and>
               (case map_of items key of
                  None \<Rightarrow> True
                | Some v \<Rightarrow> hd s \<noteq> CHR ''@'' \<or> (case v of KStr _ \<Rightarrow> True | KDict _ \<Rightarrow> False))
           | TDict sub \<Rightarrow>
               (case map_of items key of None \<Rightarrow> True | Some v \<Rightarrow> shape_ok sub v))
          \<and> shape_ok rest data)"
  by pat_completeness auto
termination
  by (relation "measure (\<lambda>(t, d). size_list (size_prod (\<lambda>_. 0) size) t)") auto


text \<open>
  The collection as the spec words it, to compare \<open>_collect_variable_values\<close> with: the
  walk of a pattern against the attribute structure of a unit adds, for every variable
  marker of the pattern, at any depth, the value the structure has at that place.
  \<open>spec_bindings\<close> is the list of these pairs of a variable and its observed value, and
  \<open>spec_covers\<close> says that the structure has every key of the pattern, at any depth.
\<close>

function spec_bindings :: "(string \<times> tmpl) list \<Rightarrow> kr \<Rightarrow> (string \<times> string) list" where
  "spec_bindings [] data = []"
| "spec_bindings ((key, tv) # rest) data =
     (case getitem data key of
        Inl e \<Rightarrow> []
      | Inr d \<Rightarrow>
          (case tv of
             TDict sub \<Rightarrow> spec_bindings sub d
           | TStr s \<Rightarrow>
               (case d of
                  KStr v \<Rightarrow> if take 1 s = ''@'' then [(s, v)] else []
                | KDict _ \<Rightarrow> [])))
     @ spec_bindings rest data"
  by pat_completeness auto
termination
  by (relation "measure (\<lambda>(t, d). size_list (size_prod (\<lambda>_. 0) size) t)") auto


text \<open>\<open>kr_of\<close> stands for \<open>unit.control.kr\<close>.\<close>

definition NPConstruction_last_check ::
  "('u \<Rightarrow> kr) \<Rightarrow> ('u, 'w, 'z) np_construction_scheme \<Rightarrow> 'u list \<Rightarrow> error + bool" where
  "NPConstruction_last_check kr_of c seq =
     (let patterns = map pattern (matchers c)
      in if length seq \<noteq> length patterns then Inl AssertionError
         else (case collect_seq patterns (map kr_of seq) [] of
                 Inl e \<Rightarrow> Inl e
               | Inr (ok, g) \<Rightarrow>
                   if \<not> ok then Inr False
                   else Inr (\<not> list_ex (\<lambda>v. card v > 1) (map snd g))))"

definition NPConstruction_act ::
  "('u, 'w, 'z) np_construction_scheme \<Rightarrow> 'w \<Rightarrow> 'u list \<Rightarrow> 'u list option \<times> 'w" where
  "NPConstruction_act c w seq = fold (\<lambda>operator sw. operator (fst sw) (snd sw)) (operators c) (Some seq, w)"

subsection \<open>VerbConstruction\<close>

text \<open>
  The operators and the matcher class the frame automaton is built from (modules
  \<open>operators\<close> and \<open>matcher\<close>, missing from the sources) are parameters. The working area
  they share is part of the world.
\<close>

record ('u, 'w) collaborators =
  KRPosMatcher :: "string \<Rightarrow> 'u \<Rightarrow> bool"
  ExpandOperator :: "'u \<Rightarrow> 'w \<Rightarrow> 'w"
  FillArgumentOperator :: "string \<Rightarrow> 'u \<Rightarrow> 'w \<Rightarrow> 'w"

record ('u, 'w) verb_construction = "('u, 'w) construction" +
  max_depth :: nat
  arg_matchers :: "(string \<times> ('u \<Rightarrow> bool)) list"
  activated :: bool

text \<open>
  \<open>generate_control\<close>: \<open>ms\<close> is the dictionary \<open>self.matchers\<close> (argument \<open>\<rightarrow>\<close> matcher) as
  the list of its items, so \<open>arguments\<close> are its keys and a path is a permutation of the
  items.
\<close>

definition Verb_generate_control ::
  "('u, 'w) collaborators \<Rightarrow> (string \<times> ('u \<Rightarrow> bool)) list \<Rightarrow> ('u, 'w) fsa" where
  "Verb_generate_control env ms =
     (let arguments = map fst ms;
          c0 = add_state 0 True False FSA;
          c1 = fold (\<lambda>i. add_state i False False) [1..<2 ^ length arguments] c0;
          c2 = add_state (2 ^ length arguments) False True c1;
          c3 = add_transition (KRPosMatcher env ''VERB'') [ExpandOperator env] 0 1 c2
      in fold (\<lambda>path c.
                 snd (fold (\<lambda>arg sc.
                              (let new_state = fst sc + 2 ^ index_of arguments (fst arg)
                               in (new_state,
                                   add_transition (snd arg) [FillArgumentOperator env (fst arg)]
                                     (fst sc) new_state (snd sc))))
                        path (1, c)))
           (permutations ms (length ms)) c3)"

text \<open>
  The constructor. \<open>ms\<close> is what \<open>discover_arguments\<close> leaves in \<open>self.matchers\<close>; the
  traversal itself reads the lexicon and the definition graph, which are not part of the
  sources, and is not modelled.
\<close>

definition VerbConstruction_init ::
  "('u, 'w) collaborators \<Rightarrow> string \<Rightarrow> (string \<times> ('u \<Rightarrow> bool)) list \<Rightarrow> nat
     \<Rightarrow> ('u, 'w) verb_construction" where
  "VerbConstruction_init env n ms depth =
     construction.extend (Construction_init n (Verb_generate_control env ms) SEMANTIC)
       (verb_construction.fields depth ms False)"

definition VerbConstruction_check ::
  "('u, 'w, 'z) verb_construction_scheme \<Rightarrow> 'w \<Rightarrow> 'u list
     \<Rightarrow> bool \<times> ('u, 'w, 'z) verb_construction_scheme \<times> 'w" where
  "VerbConstruction_check c w seq =
     (if activated c then (False, c, w) else Construction_check c w seq)"

text \<open>\<open>VerbConstruction\<close> does not override \<open>act\<close>: it is \<open>Construction.act\<close>.\<close>

definition VerbConstruction_act ::
  "('u, 'w, 'z) verb_construction_scheme \<Rightarrow> 'w \<Rightarrow> 'u list
     \<Rightarrow> 'u list option \<times> ('u, 'w, 'z) verb_construction_scheme \<times> 'w" where
  "VerbConstruction_act c w seq = Construction_act c w seq"

subsection \<open>AVMConstruction\<close>

text \<open>
  The attribute-value matrix (module \<open>avm\<close>, missing from the sources), as far as the
  constructor and \<open>check\<close> read it: its name, its keys in iteration order and the type
  matcher of each key, \<open>get_field(key, AVM.TYPE)\<close>.
\<close>

record ('k, 'u) avm =
  avm_name :: string
  avm_keys :: "'k list"
  avm_type :: "'k \<Rightarrow> 'u \<Rightarrow> bool"

record ('k, 'u, 'w) avm_construction = "('u, 'w) construction" +
  the_avm :: "('k, 'u) avm"

definition AVM_generate_control :: "('k, 'u) avm \<Rightarrow> ('u, 'w) fsa" where
  "AVM_generate_control a =
     snd (fold (\<lambda>key sc.
                  (fst sc + 1,
                   add_transition (avm_type a key) [] 0 (fst sc)
                     (add_state (fst sc) False True (snd sc))))
            (avm_keys a) (1, add_state 0 True False FSA))"

definition AVMConstruction_init :: "('k, 'u) avm \<Rightarrow> ('k, 'u, 'w) avm_construction" where
  "AVMConstruction_init a =
     construction.extend
       (Construction_init (avm_name a @ ''Construction'') (AVM_generate_control a) AVM)
       (avm_construction.fields a)"

definition AVMConstruction_check ::
  "('k, 'u, 'w, 'z) avm_construction_scheme \<Rightarrow> 'w \<Rightarrow> 'u list
     \<Rightarrow> bool \<times> ('k, 'u, 'w, 'z) avm_construction_scheme \<times> 'w" where
  "AVMConstruction_check c w seq = (True, c, w)"

section \<open>Units and their partitions\<close>

text \<open>
  Modelled from the spec: the class \<open>Machine\<close> is missing from the sources. A unit has an
  identity (a value of \<open>'u\<close>) and an ordered sequence of partitions, each an ordered set
  of references to units. The heap maps a unit to its partitions; the methods the sources
  call return the new partitions:
  \<^item> \<open>append(i, what)\<close> puts \<open>what\<close> at the end of partition \<open>i\<close>;
  \<^item> \<open>base.find(what)\<close> is the list of the indices of the partitions that hold \<open>what\<close>;
  \<^item> \<open>remove(what, i)\<close> takes \<open>what\<close> out of partition \<open>i\<close>;
  \<^item> \<open>append_if_not_there(what, i)\<close> puts \<open>what\<close> at the end of partition \<open>i\<close> unless
    the partition holds it already.
\<close>

type_synonym 'u heap = "'u \<Rightarrow> 'u list list"

definition Machine_append :: "nat \<Rightarrow> 'u \<Rightarrow> 'u list list \<Rightarrow> error + 'u list list" where
  "Machine_append i what ps =
     (if i < length ps then Inr (ps[i := ps ! i @ [what]]) else Inl IndexError)"

definition Machine_find :: "'u \<Rightarrow> 'u list list \<Rightarrow> nat list" where
  "Machine_find what ps = filter (\<lambda>i. what \<in> set (ps ! i)) [0..<length ps]"

definition Machine_remove :: "'u \<Rightarrow> nat \<Rightarrow> 'u list list \<Rightarrow> 'u list list" where
  "Machine_remove what i ps = ps[i := remove1 what (ps ! i)]"

definition Machine_append_if_not_there :: "'u \<Rightarrow> nat \<Rightarrow> 'u list list \<Rightarrow> 'u list list" where
  "Machine_append_if_not_there what i ps =
     (if what \<in> set (ps ! i) then ps else ps[i := ps ! i @ [what]])"

section \<open>constructions.py\<close>

subsection \<open>Commands\<close>

text \<open>
  A \<open>Control\<close> of this module is its category pattern, a string: the sources use the
  controls of the rule as dictionary keys and look them up with fresh instances, so they
  compare by value.
\<close>

datatype command = AppendRegexCommand string string | OneCommand string | VerbCommand

text \<open>
  \<open>Command.get_instance(type_str, terminals)\<close>. The first pattern,
  \<open>([^\[]*)\[([^\]]*)\]\<close>, is matched at the start of the code: everything before the
  first \<open>[\<close>, then everything before the next \<open>]\<close>. The second pattern is
  \<open>"|".join(terminals)\<close>, which the module \<open>re\<close> of the Python library compiles as a
  regular expression and matches at the start of the code. The library is a parameter:
  \<open>re_match p s\<close> stands for \<open>re.compile(p).match(s)\<close>, with \<open>None\<close> where \<open>compile\<close>
  raises its \<open>error\<close>, \<open>Some None\<close> where the pattern does not match and \<open>Some (Some g)\<close>
  where it matches and \<open>g\<close> is \<open>group(0)\<close>. The second pattern is only compiled when
  the first does not match. When nothing matches the method returns \<open>None\<close>.
\<close>

definition append_regex_match :: "string \<Rightarrow> (string \<times> string) option" where
  "append_regex_match type_str =
     (case dropWhile (\<lambda>ch. ch \<noteq> CHR ''['') type_str of
        [] \<Rightarrow> None
      | _ # after_open \<Rightarrow>
          (case dropWhile (\<lambda>ch. ch \<noteq> CHR '']'') after_open of
             [] \<Rightarrow> None
           | _ # _ \<Rightarrow>
               Some (takeWhile (\<lambda>ch. ch \<noteq> CHR ''['') type_str,
                     takeWhile (\<lambda>ch. ch \<noteq> CHR '']'') after_open)))"

text \<open>\<open>sep.join(xs)\<close>.\<close>

fun str_join :: "string \<Rightarrow> string list \<Rightarrow> string" where
  "str_join sep [] = []"
| "str_join sep [x] = x"
| "str_join sep (x # y # ys) = x @ sep @ str_join sep (y # ys)"

definition get_instance ::
  "(string \<Rightarrow> string \<Rightarrow> string option option) \<Rightarrow> string \<Rightarrow> string list
     \<Rightarrow> error + command option" where
  "get_instance re_match type_str terminals =
     (case append_regex_match type_str of
        Some groups \<Rightarrow> Inr (Some (AppendRegexCommand (fst groups) (snd groups)))
      | None \<Rightarrow>
          (case re_match (str_join ''|'' terminals) type_str of
             None \<Rightarrow> Inl RegexError
           | Some (Some stay) \<Rightarrow> Inr (Some (OneCommand stay))
           | Some None \<Rightarrow> Inr (if type_str = ''*'' then Some VerbCommand else None)))"

text \<open>
  \<open>run(pairs)\<close> of the three commands. \<open>pairs\<close> is a dictionary from controls to units,
  the list of its items; the result is the returned list (or \<open>None\<close>) and the heap.
\<close>

fun Command_run ::
  "command \<Rightarrow> (string \<times> 'u) list \<Rightarrow> 'u heap \<Rightarrow> error + ('u list option \<times> 'u heap)" where
  "Command_run (AppendRegexCommand into what) pairs h =
     (case map_of pairs into of
        None \<Rightarrow> Inl KeyError
      | Some mi \<Rightarrow>
          (case map_of pairs what of
             None \<Rightarrow> Inl KeyError
           | Some mw \<Rightarrow>
               (case Machine_append 1 mw (h mi) of
                  Inl e \<Rightarrow> Inl e
                | Inr ps \<Rightarrow> Inr (Some [mi], h(mi := ps)))))"
| "Command_run (OneCommand stay) pairs h =
     Inr (Some (map snd (filter (\<lambda>a. fst a = stay) pairs)), h)"
| "Command_run VerbCommand pairs h = Inr (None, h)"

subsection \<open>Construction\<close>

record simple_construction =
  rule_left :: string
  rule_right :: "string list"
  command :: "command option"

text \<open>
  The constructor: it raises what \<open>get_instance\<close> raises, and then there is no
  construction.
\<close>

definition SimpleConstruction_init ::
  "(string \<Rightarrow> string \<Rightarrow> string option option) \<Rightarrow> string \<Rightarrow> string list \<Rightarrow> string
     \<Rightarrow> error + simple_construction" where
  "SimpleConstruction_init re_match l r code =
     (case get_instance re_match code r of
        Inl e \<Rightarrow> Inl e
      | Inr cmd \<Rightarrow> Inr \<lparr>rule_left = l, rule_right = r, command = cmd\<rparr>)"

text \<open>
  \<open>__match__(machines)\<close>. \<open>is_a m c\<close> stands for \<open>m.control.is_a(c)\<close> (the class
  \<open>PosControl\<close> is missing from the sources). \<open>possible_pairs\<close> is a dictionary keyed by
  the units, and the second loop runs over its items in the order of the dictionary,
  which the language does not fix: \<open>order\<close> is that order, a rearrangement of the keys.
  The loop returns \<open>False\<close> (\<open>Inr None\<close>), raises, or goes on with one more pair.
\<close>

definition dict_order :: "('u list \<Rightarrow> 'u list) \<Rightarrow> bool" where
  "dict_order order = (\<forall>xs. distinct xs \<longrightarrow> distinct (order xs) \<and> set (order xs) = set xs)"

fun match_loop ::
  "('u \<times> string list) list \<Rightarrow> (string \<times> 'u) list \<Rightarrow> error + (string \<times> 'u) list option" where
  "match_loop [] pairs = Inr (Some pairs)"
| "match_loop ((m, pp) # rest) pairs =
     (if length pp > 1 then Inl NotImplementedError
      else if length pp = 0 then Inr None
      else if m \<in> snd ` set pairs then Inr None
      else match_loop rest (AList.update (pp ! 0) m pairs))"

definition SimpleConstruction_match ::
  "('u list \<Rightarrow> 'u list) \<Rightarrow> ('u \<Rightarrow> string \<Rightarrow> bool) \<Rightarrow> simple_construction \<Rightarrow> 'u list
     \<Rightarrow> error + (string \<times> 'u) list option" where
  "SimpleConstruction_match order is_a c machines =
     (if length machines \<noteq> length (rule_right c) then Inr None
      else (case match_loop
                   (map (\<lambda>machine. (machine, filter (is_a machine) (rule_right c)))
                      (order (remdups machines))) [] of
              Inl e \<Rightarrow> Inl e
            | Inr None \<Rightarrow> Inr None
            | Inr (Some pairs) \<Rightarrow>
                if length pairs \<noteq> length (rule_right c) then Inr None else Inr (Some pairs)))"

text \<open>
  \<open>do(machines)\<close>: \<open>not pairs\<close> holds for \<open>False\<close> and for the empty dictionary. A
  construction whose code matched no command has \<open>None\<close> for its command, and calling
  \<open>run\<close> on it raises \<open>AttributeError\<close>.
\<close>

definition SimpleConstruction_do ::
  "('u list \<Rightarrow> 'u list) \<Rightarrow> ('u \<Rightarrow> string \<Rightarrow> bool) \<Rightarrow> simple_construction \<Rightarrow> 'u heap \<Rightarrow> 'u list
     \<Rightarrow> error + ('u list option \<times> 'u heap)" where
  "SimpleConstruction_do order is_a c h machines =
     (case SimpleConstruction_match order is_a c machines of
        Inl e \<Rightarrow> Inl e
      | Inr None \<Rightarrow> Inr (None, h)
      | Inr (Some pairs) \<Rightarrow>
          if pairs = [] then Inr (None, h)
          else (case command c of
                  None \<Rightarrow> Inl AttributeError
                | Some cmd \<Rightarrow> Command_run cmd pairs h))"

section \<open>spreading_activation.py\<close>

subsection \<open>The collaborators of the loop\<close>

text \<open>
  The world is everything the loop and its collaborators mutate: the partitions of the
  units (the heap) and the state \<open>'l\<close> of the lexicon, of the constructions and of
  whatever their operators reach.
\<close>

record ('u, 'l) world =
  heap :: "'u heap"
  lexst :: 'l

text \<open>
  A construction as the loop uses it: \<open>check\<close>, whose verdict depends on the world but
  which changes nothing the loop or a later \<open>check\<close> or \<open>act\<close> can observe (a dry run),
  and \<open>act\<close>, which returns a list of units or \<open>None\<close>, and the world it leaves.
\<close>

record ('u, 'w) sa_construction =
  check :: "'w \<Rightarrow> 'u list \<Rightarrow> bool"
  act :: "'w \<Rightarrow> 'u list \<Rightarrow> 'u list option \<times> 'w"

text \<open>
  A construction of \<open>pymachine/construction.py\<close> in that interface. The control it leaves
  is dropped: \<open>check\<close> and \<open>act\<close> reset it before they read.
\<close>

definition sa_of_Construction :: "('u, 'w, 'z) construction_scheme \<Rightarrow> ('u, 'w) sa_construction" where
  "sa_of_Construction c =
     \<lparr>check = (\<lambda>w seq. fst (Construction_check c w seq)),
      act = (\<lambda>w seq. (fst (Construction_act c w seq), snd (snd (Construction_act c w seq))))\<rparr>"

text \<open>
  The lexicon (its class is missing from the sources) is the record of what the loop
  asks of it: \<open>get_unexpanded()\<close>, \<open>expand(machine)\<close>, \<open>is_deep_case(machine)\<close>,
  \<open>activate()\<close>, \<open>len(active)\<close>, \<open>constructions\<close>, \<open>get_expanded()\<close>, and for a unit the
  message of its control: \<open>None\<close> when the control is no \<open>PluginControl\<close> or its
  \<open>message()\<close> is \<open>None\<close>.
\<close>

record ('u, 'l, 'msg) lexicon =
  get_unexpanded :: "('u, 'l) world \<Rightarrow> 'u list"
  expand :: "'u \<Rightarrow> ('u, 'l) world \<Rightarrow> ('u, 'l) world"
  is_deep_case :: "('u, 'l) world \<Rightarrow> 'u \<Rightarrow> bool"
  activate :: "('u, 'l) world \<Rightarrow> ('u, 'l) world"
  active_len :: "('u, 'l) world \<Rightarrow> nat"
  constructions :: "('u, 'l) world \<Rightarrow> ('u, ('u, 'l) world) sa_construction list"
  get_expanded :: "('u, 'l) world \<Rightarrow> 'u list"
  message :: "('u, 'l) world \<Rightarrow> 'u \<Rightarrow> 'msg option"

text \<open>
  The local variables of \<open>activation_loop\<close>. The set \<open>sentence\<close> and the sets of the
  dictionary \<open>linking\<close> are lists without repetition, the dictionary is the list of its
  items. For \<open>linking\<close> and its sets the order of the list stands for the iteration
  order. The list of \<open>sentence\<close> only holds its elements: the order in which a Python
  set yields them follows the hashes of the units and is not fixed by the language, so
  the loop over the set takes it from a parameter \<open>order\<close> (see \<open>accepted_seqs\<close>).
\<close>

record ('u, 'l) sa_state =
  world :: "('u, 'l) world"
  last_active :: nat
  unexpanded :: "'u list"
  sentence :: "'u list"
  linking :: "('u \<times> 'u list) list"

definition set_add :: "'u \<Rightarrow> 'u list \<Rightarrow> 'u list" where
  "set_add m s = (if m \<in> set s then s else s @ [m])"

subsection \<open>Step 1: expansion\<close>

definition linking_add :: "'u \<Rightarrow> 'u \<Rightarrow> ('u \<times> 'u list) list \<Rightarrow> ('u \<times> 'u list) list" where
  "linking_add submachine machine lk =
     AList.update submachine
       (set_add machine (case map_of lk submachine of None \<Rightarrow> [] | Some s \<Rightarrow> s)) lk"

definition expand_machine ::
  "('u, 'l, 'msg) lexicon \<Rightarrow> 'u \<Rightarrow> ('u, 'l) world \<times> ('u \<times> 'u list) list
     \<Rightarrow> ('u, 'l) world \<times> ('u \<times> 'u list) list" where
  "expand_machine L machine wl =
     (let w = expand L machine (fst wl)
      in (w, fold (\<lambda>submachine lk.
                     if is_deep_case L w submachine then linking_add submachine machine lk else lk)
               (concat (drop 1 (heap w machine))) (snd wl)))"

definition expansion ::
  "('u, 'l, 'msg) lexicon \<Rightarrow> 'u list \<Rightarrow> ('u, 'l) world \<times> ('u \<times> 'u list) list
     \<Rightarrow> ('u, 'l) world \<times> ('u \<times> 'u list) list" where
  "expansion L un wl = fold (expand_machine L) un wl"

subsection \<open>Step 2b: constructions\<close>

text \<open>
  The sequences the construction accepts, in the order the two nested loops find them.
  \<open>itertools.permutations(sentence, elems + 1)\<close> iterates the set \<open>sentence\<close>:
  \<open>order s\<close> is the order in which the set with the elements \<open>s\<close> yields them, a
  rearrangement of \<open>s\<close> (\<open>dict_order order\<close>).
\<close>

definition accepted_seqs ::
  "('u list \<Rightarrow> 'u list) \<Rightarrow> ('u, 'w) sa_construction \<Rightarrow> 'w \<Rightarrow> 'u list \<Rightarrow> 'u list list" where
  "accepted_seqs order c w s =
     concat (map (\<lambda>elems. filter (check c w) (permutations (order s) (elems + 1)))
       [0..<length s])"

text \<open>
  The loop \<open>while len(accepted) > 0\<close> takes \<open>accepted[-1]\<close> and deletes it when \<open>act\<close>
  returns \<open>None\<close>: it walks the list from its end. \<open>try_act\<close> walks its argument from the
  front and is called on the reversed list; it returns the sequence \<open>act\<close> accepted, with
  the result of \<open>act\<close>, or \<open>None\<close> when the list is exhausted.
\<close>

fun try_act ::
  "('u, 'w) sa_construction \<Rightarrow> 'w \<Rightarrow> 'u list list \<Rightarrow> ('u list \<times> 'u list) option \<times> 'w" where
  "try_act c w [] = (None, w)"
| "try_act c w (seq # rest) =
     (case act c w seq of
        (None, w') \<Rightarrow> try_act c w' rest
      | (Some c_res, w') \<Rightarrow> (Some (seq, c_res), w'))"



text \<open>\<open>for m in seq: sentence.remove(m)\<close>, which raises \<open>KeyError\<close> for a missing element.\<close>

fun remove_all :: "'u list \<Rightarrow> 'u list \<Rightarrow> error + 'u list" where
  "remove_all [] s = Inr s"
| "remove_all (m # ms) s = (if m \<in> set s then remove_all ms (removeAll m s) else Inl KeyError)"

text \<open>The body of the loop \<open>for c in self.lexicon.constructions\<close>, for one construction.\<close>

definition apply_construction ::
  "('u list \<Rightarrow> 'u list) \<Rightarrow> ('u, 'w) sa_construction \<Rightarrow> 'w \<times> 'u list
     \<Rightarrow> error + 'w \<times> 'u list" where
  "apply_construction order c ws =
     (let accepted = sort_key length (accepted_seqs order c (fst ws) (snd ws))
      in (case try_act c (fst ws) (rev accepted) of
            (None, w') \<Rightarrow> Inr (w', snd ws)
          | (Some (seq, c_res), w') \<Rightarrow>
              (case remove_all seq (snd ws) of
                 Inl e \<Rightarrow> Inl e
               | Inr s' \<Rightarrow> Inr (w', fold set_add c_res s'))))"

text \<open>The loop \<open>for c in self.lexicon.constructions\<close>.\<close>

fun run_constructions ::
  "('u list \<Rightarrow> 'u list) \<Rightarrow> ('u, 'w) sa_construction list \<Rightarrow> 'w \<times> 'u list
     \<Rightarrow> error + 'w \<times> 'u list" where
  "run_constructions order [] ws = Inr ws"
| "run_constructions order (c # cs) ws =
     (case apply_construction order c ws of
        Inl e \<Rightarrow> Inl e
      | Inr ws' \<Rightarrow> run_constructions order cs ws')"

subsection \<open>Step 2: linking\<close>

text \<open>\<open>_link(linker, machines)\<close>: what it does to the partitions of one of the machines.\<close>

definition link_machine :: "'u \<Rightarrow> 'u list \<Rightarrow> 'u \<Rightarrow> 'u list list \<Rightarrow> 'u list list" where
  "link_machine linker machines machine ps =
     fold (\<lambda>partition ps'.
             fold (\<lambda>to_add ps''.
                     if to_add \<noteq> machine then Machine_append_if_not_there to_add partition ps''
                     else ps'')
               machines (Machine_remove linker partition ps'))
       (Machine_find linker ps) ps"

text \<open>What \<open>_link\<close> makes of a partition that holds the linker.\<close>

definition linked_partition :: "'u \<Rightarrow> 'u list \<Rightarrow> 'u \<Rightarrow> 'u list \<Rightarrow> 'u list" where
  "linked_partition linker machines machine p =
     fold (\<lambda>a p'. if a \<noteq> machine then set_add a p' else p') machines (remove1 linker p)"


definition link :: "'u \<Rightarrow> 'u list \<Rightarrow> 'u heap \<Rightarrow> 'u heap" where
  "link linker machines h =
     fold (\<lambda>machine h'. h'(machine := link_machine linker machines machine (h' machine)))
       machines h"

text \<open>
  The loop over the items of \<open>linking\<close>: it returns the heap after the calls of \<open>_link\<close>
  and the list \<open>linker_to_remove\<close>, which gets a linker when, and only when, \<open>_link\<close> is
  called for it.
\<close>

fun link_scan :: "'u heap \<Rightarrow> ('u \<times> 'u list) list \<Rightarrow> 'u heap \<times> 'u list" where
  "link_scan h [] = (h, [])"
| "link_scan h ((linker, machines) # rest) =
     (if length machines > 1
      then (let r = link_scan (link linker machines h) rest in (fst r, linker # snd r))
      else link_scan h rest)"

text \<open>\<open>for linker in linker_to_remove: del linking[linker]\<close>; \<open>del\<close> raises for a missing key.\<close>

fun del_all :: "'u list \<Rightarrow> ('u \<times> 'u list) list \<Rightarrow> error + ('u \<times> 'u list) list" where
  "del_all [] lk = Inr lk"
| "del_all (linker # ls) lk =
     (if linker \<in> fst ` set lk then del_all ls (AList.delete linker lk) else Inl KeyError)"

definition link_step ::
  "'u heap \<times> ('u \<times> 'u list) list \<Rightarrow> error + 'u heap \<times> ('u \<times> 'u list) list" where
  "link_step hl =
     (let r = link_scan (fst hl) (snd hl)
      in (case del_all (snd r) (snd hl) of Inl e \<Rightarrow> Inl e | Inr lk \<Rightarrow> Inr (fst r, lk)))"

subsection \<open>The loop\<close>

text \<open>
  One pass through the body of the \<open>while\<close> loop, up to and including the new value of
  \<open>unexpanded\<close>; the test of the number of active entries is left to the loop.
\<close>

definition body ::
  "('u list \<Rightarrow> 'u list) \<Rightarrow> ('u, 'l, 'msg) lexicon \<Rightarrow> ('u, 'l) sa_state
     \<Rightarrow> error + ('u, 'l) sa_state" where
  "body order L st =
     (let wl = expansion L (unexpanded st) (world st, linking st)
      in (case run_constructions order (constructions L (fst wl)) (fst wl, sentence st) of
            Inl e \<Rightarrow> Inl e
          | Inr ws \<Rightarrow>
              (case link_step (heap (fst ws), snd wl) of
                 Inl e \<Rightarrow> Inl e
               | Inr hl \<Rightarrow>
                   (let w = activate L ((fst ws)\<lparr>heap := fst hl\<rparr>)
                    in Inr (st\<lparr>world := w, unexpanded := get_unexpanded L w,
                                sentence := snd ws, linking := snd hl\<rparr>)))))"

text \<open>
  The \<open>while\<close> loop. It may run forever: not returning is the value \<open>None\<close>. An exception
  of the body ends it with \<open>Inl\<close>.
\<close>

partial_function (option) while_loop ::
  "('u list \<Rightarrow> 'u list) \<Rightarrow> ('u, 'l, 'msg) lexicon \<Rightarrow> ('u, 'l) sa_state
     \<Rightarrow> (error + ('u, 'l) sa_state) option" where
  "while_loop order L st =
     (if \<not> length (unexpanded st) > 0 then Some (Inr st)
      else (case body order L st of
              Inl e \<Rightarrow> Some (Inl e)
            | Inr st' \<Rightarrow>
                if active_len L (world st') = last_active st' then Some (Inr st')
                else while_loop order L (st'\<lparr>last_active := active_len L (world st')\<rparr>)))"

text \<open>
  The state before the first test of the loop. \<open>sentence = set(unexpanded)\<close>: the list
  holds the elements of that set, each once.
\<close>

definition initial_state :: "('u, 'l, 'msg) lexicon \<Rightarrow> ('u, 'l) world \<Rightarrow> ('u, 'l) sa_state" where
  "initial_state L w =
     \<lparr>world = w, last_active = active_len L w, unexpanded = get_unexpanded L w,
      sentence = remdups (get_unexpanded L w), linking = []\<rparr>"

definition messages :: "('u, 'l, 'msg) lexicon \<Rightarrow> ('u, 'l) world \<Rightarrow> 'msg list" where
  "messages L w = List.map_filter (message L w) (get_expanded L w)"

definition activation_loop ::
  "('u list \<Rightarrow> 'u list) \<Rightarrow> ('u, 'l, 'msg) lexicon \<Rightarrow> ('u, 'l) world
     \<Rightarrow> (error + 'msg list) option" where
  "activation_loop order L w =
     (case while_loop order L (initial_state L w) of
        None \<Rightarrow> None
      | Some (Inl e) \<Rightarrow> Some (Inl e)
      | Some (Inr st) \<Rightarrow> Some (Inr (messages L (world st))))"

text \<open>
  The state at the head of the loop after \<open>n\<close> passes through the body, each of which
  went on to the next: \<open>None\<close> when the loop ends or raises before.
\<close>

fun iterations ::
  "('u list \<Rightarrow> 'u list) \<Rightarrow> ('u, 'l, 'msg) lexicon \<Rightarrow> nat \<Rightarrow> ('u, 'l) sa_state
     \<Rightarrow> ('u, 'l) sa_state option" where
  "iterations order L 0 st = Some st"
| "iterations order L (Suc n) st =
     (if unexpanded st = [] then None
      else (case body order L st of
              Inl e \<Rightarrow> None
            | Inr st' \<Rightarrow>
                if active_len L (world st') = last_active st' then None
                else iterations order L n (st'\<lparr>last_active := active_len L (world st')\<rparr>)))"


section \<open>Example data\<close>

text \<open>
  Units are numbers in the examples. An attribute-value matrix with the slots \<open>0\<close> and
  \<open>1\<close>, the slot \<open>k\<close> accepting the unit \<open>k\<close> only.
\<close>

definition avm_ex :: "(nat, nat) avm" where
  "avm_ex = \<lparr>avm_name = ''A'', avm_keys = [0, 1], avm_type = (\<lambda>k u. u = k)\<rparr>"

text \<open>
  A frame construction with one discovered argument, \<open>AGT\<close>. The unit \<open>0\<close> is the verb and
  the unit \<open>1\<close> fills \<open>AGT\<close>; the world counts the operators that ran (\<open>1\<close> for the
  expansion, \<open>10\<close> for each filled argument).
\<close>

definition env_ex :: "(nat, nat) collaborators" where
  "env_ex = \<lparr>KRPosMatcher = (\<lambda>p u. u = 0), ExpandOperator = (\<lambda>u w. w + 1),
     FillArgumentOperator = (\<lambda>arg u w. w + 10)\<rparr>"

definition verb_ex :: "(nat, nat) verb_construction" where
  "verb_ex = VerbConstruction_init env_ex ''eat'' [(''AGT'', \<lambda>u. u = 1)] 3"


definition kr_ex :: "nat \<Rightarrow> kr" where
  "kr_ex u = (if u = 1 then KDict [(''CAS'', KStr ''NOM'')] else KDict [(''CAS'', KStr ''ACC'')])"

text \<open>
  Three matchers that bind \<open>@x\<close> to the case, for units of which the third has a
  dictionary where the first two have their case.
\<close>

definition np_ex3 :: "(nat, unit) np_construction" where
  "np_ex3 = NPConstruction_init ''NP'' ''N<CAS<@x>> N<CAS<@x>> N<CAS<@x>>''
     [\<lparr>pattern = [(''CAS'', TStr ''@x'')], match = (\<lambda>u. True)\<rparr>,
      \<lparr>pattern = [(''CAS'', TStr ''@x'')], match = (\<lambda>u. True)\<rparr>,
      \<lparr>pattern = [(''CAS'', TStr ''@x'')], match = (\<lambda>u. True)\<rparr>] []"

definition kr_deep :: "nat \<Rightarrow> kr" where
  "kr_deep u =
     (if u = 3 then KDict [(''CAS'', KDict [(''X'', KStr ''Y'')])] else kr_ex u)"

text \<open>
  Two matchers whose pattern has a nested pattern and the variable \<open>@x\<close> for the case.
  In \<open>np_agr_first\<close> the dictionary of the pattern yields the nested pattern first and
  the nested pattern holds a literal; in \<open>np_agr_last\<close> it yields the nested pattern
  last and the nested pattern binds the variable \<open>@n\<close> to the number. The unit \<open>1\<close>
  is nominative singular, every other unit accusative plural.
\<close>

definition np_agr_first :: "(nat, unit) np_construction" where
  "np_agr_first = NPConstruction_init ''NP'' ''N N''
     [\<lparr>pattern = [(''AGR'', TDict [(''PERS'', TStr ''3'')]), (''CAS'', TStr ''@x'')],
       match = (\<lambda>u. True)\<rparr>,
      \<lparr>pattern = [(''AGR'', TDict [(''PERS'', TStr ''3'')]), (''CAS'', TStr ''@x'')],
       match = (\<lambda>u. True)\<rparr>] []"

definition np_agr_last :: "(nat, unit) np_construction" where
  "np_agr_last = NPConstruction_init ''NP'' ''N N''
     [\<lparr>pattern = [(''POS'', TStr ''N''), (''AGR'', TDict [(''NUM'', TStr ''@n'')])],
       match = (\<lambda>u. True)\<rparr>,
      \<lparr>pattern = [(''POS'', TStr ''N''), (''AGR'', TDict [(''NUM'', TStr ''@n'')])],
       match = (\<lambda>u. True)\<rparr>] []"

definition kr_agr :: "nat \<Rightarrow> kr" where
  "kr_agr u =
     KDict [(''POS'', KStr ''N''),
            (''CAS'', KStr (if u = 1 then ''NOM'' else ''ACC'')),
            (''AGR'', KDict [(''PERS'', KStr ''3''),
                             (''NUM'', KStr (if u = 1 then ''SG'' else ''PL''))])]"

text \<open>
  Units with a category tag, for the rule-based constructions: the determiners \<open>1\<close> and
  \<open>4\<close>, the adjective \<open>2\<close>, every other unit a noun. A unit satisfies a slot when the
  slot's pattern is a prefix of its tag. Every unit has two empty partitions.
\<close>

definition tag_ex :: "nat \<Rightarrow> string" where
  "tag_ex u = (if u = 1 \<or> u = 4 then ''DET'' else if u = 2 then ''ADJ'' else ''NOUN'')"

definition is_a_ex :: "nat \<Rightarrow> string \<Rightarrow> bool" where
  "is_a_ex u c = (take (length c) (tag_ex u) = c)"

definition heap_ex :: "nat heap" where
  "heap_ex = (\<lambda>u. [[], []])"

text \<open>
  A regular expression library for the examples, which knows the alternations of literal
  labels only: like \<open>re\<close>, it matches the first alternative that is a prefix of the
  string.
\<close>

fun split_bar :: "string \<Rightarrow> string list" where
  "split_bar [] = [[]]"
| "split_bar (ch # cs) =
     (if ch = CHR ''|'' then [] # split_bar cs
      else (case split_bar cs of [] \<Rightarrow> [[ch]] | x # xs \<Rightarrow> (ch # x) # xs))"

definition re_literal :: "string \<Rightarrow> string \<Rightarrow> string option option" where
  "re_literal p s = Some (find (\<lambda>t. take (length t) s = t) (split_bar p))"

text \<open>
  The constructions that the constructor builds from three lines of the construction
  definition format: \<open>NP / DET ADJ NOUN / NOUN[DET]\<close>; \<open>NP / DET N NOUN / NOUN[DET]\<close>,
  whose slots \<open>N\<close> and \<open>NOUN\<close> overlap; and \<open>NP / N NOUN / N\<close>, with the same overlap.
\<close>

definition rule_ex :: simple_construction where
  "rule_ex = \<lparr>rule_left = ''NP'', rule_right = [''DET'', ''ADJ'', ''NOUN''],
     command = Some (AppendRegexCommand ''NOUN'' ''DET'')\<rparr>"

definition rule_dn :: simple_construction where
  "rule_dn = \<lparr>rule_left = ''NP'', rule_right = [''DET'', ''N'', ''NOUN''],
     command = Some (AppendRegexCommand ''NOUN'' ''DET'')\<rparr>"

definition rule_n :: simple_construction where
  "rule_n = \<lparr>rule_left = ''NP'', rule_right = [''N'', ''NOUN''],
     command = Some (OneCommand ''N'')\<rparr>"




text \<open>
  Two units and a linking map: the units \<open>2\<close> and \<open>3\<close> hold the anchor \<open>7\<close> in their
  partition \<open>1\<close>, and the unit \<open>3\<close> alone holds the anchor \<open>8\<close>.
\<close>

definition heap7 :: "nat heap" where
  "heap7 = (\<lambda>u. if u = 2 then [[], [7]] else if u = 3 then [[], [7], [8]] else [])"

definition linking7 :: "(nat \<times> nat list) list" where
  "linking7 = [(7, [2, 3]), (8, [3])]"

text \<open>
  Two lexicons for the loop. The lexicon knows units, some of them expanded, and counts
  its active entries (at most two). \<open>get_unexpanded\<close> is the known units that are not
  expanded, and \<open>expand\<close> marks a unit as expanded. In \<open>lex_same_entry\<close>, \<open>activate\<close>
  brings in a new unit under an entry that is active already: the number of active
  entries stays. In \<open>lex_new_entry\<close>, \<open>activate\<close> makes one more entry active and brings
  in no unit. Both start from the world with the one unexpanded unit \<open>0\<close> and one
  active entry; \<open>state0\<close> is the state of the loop at its first test.
\<close>

record lex_state =
  known :: "nat list"
  expanded :: "nat list"
  entries :: nat

definition lex_base :: "(nat, lex_state, string) lexicon" where
  "lex_base =
     \<lparr>get_unexpanded = (\<lambda>w. filter (\<lambda>u. u \<notin> set (expanded (lexst w))) (known (lexst w))),
      expand = (\<lambda>u w. w\<lparr>lexst := (lexst w)\<lparr>expanded := expanded (lexst w) @ [u]\<rparr>\<rparr>),
      is_deep_case = (\<lambda>w u. False),
      activate = (\<lambda>w. w),
      active_len = (\<lambda>w. min (entries (lexst w)) 2),
      constructions = (\<lambda>w. []),
      get_expanded = (\<lambda>w. expanded (lexst w)),
      message = (\<lambda>w u. None)\<rparr>"

definition lex_same_entry :: "(nat, lex_state, string) lexicon" where
  "lex_same_entry =
     lex_base\<lparr>activate := (\<lambda>w. w\<lparr>lexst := (lexst w)\<lparr>known := known (lexst w) @ [length (known (lexst w))]\<rparr>\<rparr>)\<rparr>"

definition lex_new_entry :: "(nat, lex_state, string) lexicon" where
  "lex_new_entry =
     lex_base\<lparr>activate := (\<lambda>w. w\<lparr>lexst := (lexst w)\<lparr>entries := Suc (entries (lexst w))\<rparr>\<rparr>)\<rparr>"

definition world_ex :: "(nat, lex_state) world" where
  "world_ex = \<lparr>heap = (\<lambda>u. []), lexst = \<lparr>known = [0], expanded = [], entries = 1\<rparr>\<rparr>"

definition state0 :: "(nat, lex_state) sa_state" where
  "state0 = \<lparr>world = world_ex, last_active = 1, unexpanded = [0], sentence = [0], linking = []\<rparr>"

text \<open>The state in which the loop over \<open>lex_same_entry\<close> ends: the unit \<open>1\<close> is unexpanded.\<close>

definition state_same :: "(nat, lex_state) sa_state" where
  "state_same =
     \<lparr>world = \<lparr>heap = (\<lambda>u. []), lexst = \<lparr>known = [0, 1], expanded = [0], entries = 1\<rparr>\<rparr>,
      last_active = 1, unexpanded = [1], sentence = [0], linking = []\<rparr>"

text \<open>The state in which the loop over \<open>lex_new_entry\<close> ends.\<close>

definition state_new :: "(nat, lex_state) sa_state" where
  "state_new =
     \<lparr>world = \<lparr>heap = (\<lambda>u. []), lexst = \<lparr>known = [0], expanded = [0], entries = 2\<rparr>\<rparr>,
      last_active = 2, unexpanded = [], sentence = [0], linking = []\<rparr>"






section \<open>Properties of pymachine/construction.py\<close>

subsection \<open>The automaton\<close>

lemma read_dry_world: "snd (read m True aw) = snd aw"
  by (simp add: read_def split: option.splits list.splits)

lemma read_static:
  "transitions (fst (read m d aw)) = transitions (fst aw) \<and>
   final_states (fst (read m d aw)) = final_states (fst aw) \<and>
   init_state (fst (read m d aw)) = init_state (fst aw)"
  by (simp add: read_def split: option.splits list.splits)

lemma read_current:
  "current_state (fst (read m d aw)) = next_state (transitions (fst aw)) (current_state (fst aw)) m"
  by (simp add: read_def next_state_def split: option.splits list.splits)

lemma fold_read_dry_world: "snd (fold (\<lambda>m. read m True) seq aw) = snd aw"
  by (induction seq arbitrary: aw) (simp_all add: read_dry_world)

lemma fold_read_static:
  "transitions (fst (fold (\<lambda>m. read m d) seq aw)) = transitions (fst aw) \<and>
   final_states (fst (fold (\<lambda>m. read m d) seq aw)) = final_states (fst aw) \<and>
   init_state (fst (fold (\<lambda>m. read m d) seq aw)) = init_state (fst aw)"
  by (induction seq arbitrary: aw) (simp_all add: read_static)

lemma fold_read_current:
  "current_state (fst (fold (\<lambda>m. read m d) seq aw)) =
     foldl (next_state (transitions (fst aw))) (current_state (fst aw)) seq"
  by (induction seq arbitrary: aw) (simp_all add: read_current read_static)

lemma in_final_fold_read:
  "in_final (fst (fold (\<lambda>m. read m d) seq (reset a, w))) = accepts a seq"
  using fold_read_static [of d seq "(reset a, w)"] fold_read_current [of d seq "(reset a, w)"]
  by (simp add: in_final_def accepts_def reset_def split: option.splits)

lemma Construction_check_accepts: "fst (Construction_check c w seq) = accepts (control c) seq"
  by (simp add: Construction_check_def Let_def in_final_fold_read)

lemma Construction_check_world: "snd (snd (Construction_check c w seq)) = w"
  by (simp add: Construction_check_def Let_def fold_read_dry_world)

text \<open>
  The verdict of \<open>check\<close> does not depend on the state \<open>check\<close> or \<open>act\<close> left the control
  in: both reset it first.
\<close>

lemma accepts_static:
  "transitions a = transitions b \<Longrightarrow> init_state a = init_state b \<Longrightarrow>
   final_states a = final_states b \<Longrightarrow> accepts a seq = accepts b seq"
  by (simp add: accepts_def split: option.splits)

lemma Construction_check_after_check:
  "fst (Construction_check (fst (snd (Construction_check c w seq'))) w' seq) =
     fst (Construction_check c w' seq)"
proof -
  have "control (fst (snd (Construction_check c w seq'))) =
          fst (fold (\<lambda>m. read m True) seq' (reset (control c), w))"
    by (simp add: Construction_check_def Let_def)
  moreover have "accepts (fst (fold (\<lambda>m. read m True) seq' (reset (control c), w))) seq =
          accepts (control c) seq"
    using fold_read_static [of True seq' "(reset (control c), w)"]
    by (intro accepts_static) (simp_all add: reset_def)
  ultimately show ?thesis
    by (simp add: Construction_check_accepts)
qed

lemma Construction_check_after_act:
  "fst (Construction_check (fst (snd (Construction_act c w seq'))) w' seq) =
     fst (Construction_check c w' seq)"
proof -
  have "control (fst (snd (Construction_act c w seq'))) =
          fst (fold (\<lambda>m. read m False) seq' (reset (control c), w))"
    by (simp add: Construction_act_def Let_def)
  moreover have "accepts (fst (fold (\<lambda>m. read m False) seq' (reset (control c), w))) seq =
          accepts (control c) seq"
    using fold_read_static [of False seq' "(reset (control c), w)"]
    by (intro accepts_static) (simp_all add: reset_def)
  ultimately show ?thesis
    by (simp add: Construction_check_accepts)
qed

subsection \<open>The examples\<close>

lemma verb_ex_control:
  "control verb_ex = \<lparr>init_state = Some 0, final_states = [2],
     transitions = [(0, KRPosMatcher env_ex ''VERB'', [ExpandOperator env_ex], 1),
                    (1, (\<lambda>u. u = 1), [FillArgumentOperator env_ex ''AGT''], 2)],
     current_state = None\<rparr>"
  by (simp add: verb_ex_def VerbConstruction_init_def Verb_generate_control_def
     construction.extend_def Construction_init_def add_state_def add_transition_def FSA_def Let_def
     upt_rec numeral_2_eq_2)

lemma verb_ex_activated: "\<not> activated verb_ex"
  by (simp add: verb_ex_def VerbConstruction_init_def construction.extend_def
      Construction_init_def verb_construction.fields_def)



subsection \<open>Frame constructions: exclusivity\<close>

text \<open>
  \<open>act\<close> of a frame construction is \<open>Construction.act\<close>, which never touches the flag
  \<open>activated\<close>; the constructor sets it to \<open>False\<close>, and nothing in the class sets it.
\<close>

lemma VerbConstruction_act_activated:
  "activated (fst (snd (VerbConstruction_act c w seq))) = activated c"
  by (simp add: VerbConstruction_act_def Construction_act_def Let_def)

lemma VerbConstruction_init_activated: "\<not> activated (VerbConstruction_init env n ms d)"
  by (simp add: VerbConstruction_init_def construction.extend_def
      Construction_init_def verb_construction.fields_def)

text \<open>
  C2. Claimed: once \<open>act\<close> of a frame construction has fired, every later \<open>check\<close>
  returns false. On the frame construction \<open>verb_ex\<close> and the sequence of its verb and
  its argument: \<open>check\<close> accepts, \<open>act\<close> runs the operators of both transitions (the world
  goes from \<open>0\<close> to \<open>11\<close>), and \<open>check\<close> on the construction and the world \<open>act\<close> left
  accepts again.
\<close>

theorem VerbConstruction_check_after_act:
  "fst (VerbConstruction_check verb_ex 0 [0, 1]) \<and>
   snd (snd (VerbConstruction_act verb_ex 0 [0, 1])) = 11 \<and>
   fst (VerbConstruction_check (fst (snd (VerbConstruction_act verb_ex 0 [0, 1])))
          (snd (snd (VerbConstruction_act verb_ex 0 [0, 1]))) [0, 1])"
  by (simp add: verb_ex_control VerbConstruction_check_def VerbConstruction_act_def
     Construction_check_def Construction_act_def Let_def
     reset_def read_def in_final_def env_ex_def verb_ex_activated)

subsection \<open>What \<open>check\<close> returns\<close>

text \<open>
  C4, as claimed, fails for constructions over an attribute-value matrix: \<open>check\<close> of
  \<open>AVMConstruction\<close> returns true for the sequence of the unit \<open>5\<close>, which no slot of
  \<open>avm_ex\<close> accepts, while the dry run of the sequence through the automaton of the
  construction does not end in a final state.
\<close>

theorem AVMConstruction_check_not_dry_run:
  "fst (AVMConstruction_check (AVMConstruction_init avm_ex) () [5]) \<and>
   \<not> in_final (fst (fold (\<lambda>machine. read machine True) [5]
        (reset (control (AVMConstruction_init avm_ex)), ())))"
  by (simp add: AVMConstruction_check_def AVMConstruction_init_def avm_ex_def
     AVM_generate_control_def Construction_init_def construction.extend_def add_state_def
     add_transition_def FSA_def reset_def read_def in_final_def)

text \<open>
  C4, amended. \<open>check\<close> of the base class, which chunk constructions inherit, dry-runs
  the sequence and returns true iff the automaton ends in a final state, and leaves the
  world as it was; \<open>check\<close> of a frame construction returns that verdict when the
  construction is not activated and false when it is; \<open>check\<close> of an AVM construction
  returns true whatever the sequence.
\<close>

theorem check_by_kind:
  "fst (Construction_check c w seq) = accepts (control c) seq \<and>
   snd (snd (Construction_check c w seq)) = w \<and>
   fst (VerbConstruction_check v w seq) = (\<not> activated v \<and> accepts (control v) seq) \<and>
   fst (AVMConstruction_check a w seq) = True"
  by (simp add: Construction_check_accepts Construction_check_world VerbConstruction_check_def
      AVMConstruction_check_def)

subsection \<open>The base class produces no result\<close>

text \<open>
  \<open>act\<close> of the base class has no \<open>return\<close>: its result is \<open>None\<close>, and \<open>run\<close> returns
  either that result or \<open>None\<close>.
\<close>

lemma Construction_act_None: "fst (Construction_act c w seq) = None"
  by (simp add: Construction_act_def Let_def)

lemma Construction_run_None: "fst (Construction_run self_check Construction_act c w seq) = None"
  by (simp add: Construction_run_def Construction_act_def Let_def)

subsection \<open>Binding conflicts of chunk constructions\<close>








lemma np_ex3_matchers:
  "map pattern (matchers np_ex3) =
     [[(''CAS'', TStr ''@x'')], [(''CAS'', TStr ''@x'')], [(''CAS'', TStr ''@x'')]]"
  by (simp add: np_ex3_def NPConstruction_init_def construction.extend_def Construction_init_def
      np_construction.fields_def)

lemma np_ex3_control:
  "control np_ex3 = \<lparr>init_state = Some 0, final_states = [3],
     transitions = [(0, (\<lambda>u. True), [], 1), (1, (\<lambda>u. True), [], 2), (2, (\<lambda>u. True), [], 3)],
     current_state = None\<rparr>"
  by (simp add: np_ex3_def NPConstruction_init_def construction.extend_def Construction_init_def
      NP_create_control_def add_state_def add_transition_def FSA_def upt_rec numeral_2_eq_2
      numeral_3_eq_3)

lemma np_agr_first_matchers:
  "map pattern (matchers np_agr_first) =
     [[(''AGR'', TDict [(''PERS'', TStr ''3'')]), (''CAS'', TStr ''@x'')],
      [(''AGR'', TDict [(''PERS'', TStr ''3'')]), (''CAS'', TStr ''@x'')]]"
  by (simp add: np_agr_first_def NPConstruction_init_def construction.extend_def
      Construction_init_def np_construction.fields_def)


lemma np_agr_control:
  "control np_agr_first = \<lparr>init_state = Some 0, final_states = [2],
     transitions = [(0, (\<lambda>u. True), [], 1), (1, (\<lambda>u. True), [], 2)], current_state = None\<rparr>"
  "control np_agr_last = \<lparr>init_state = Some 0, final_states = [2],
     transitions = [(0, (\<lambda>u. True), [], 1), (1, (\<lambda>u. True), [], 2)], current_state = None\<rparr>"
  by (simp_all add: np_agr_first_def np_agr_last_def NPConstruction_init_def
      construction.extend_def Construction_init_def
      NP_create_control_def add_state_def add_transition_def FSA_def upt_rec numeral_2_eq_2)


text \<open>
  C9, as claimed, fails in two ways.
  \<^item> \<open>last_check\<close> can raise where a variable has two values. On \<open>np_ex3\<close> and the
    units \<open>1\<close>, \<open>2\<close> and \<open>3\<close>, a sequence of the rule's arity that \<open>check\<close> accepts,
    the variable \<open>@x\<close> has collected the nominative and the accusative from the first
    two units when the third, whose case is a dictionary, is added to the set of its
    values: \<open>TypeError\<close>.
  \<^item> \<open>last_check\<close> can return \<open>True\<close> where the units give a variable two values. On
    \<open>np_agr_first\<close> the loop over the keys of the pattern returns at the nested pattern,
    the key of the variable \<open>@x\<close> after it is never visited, and the nominative unit
    \<open>1\<close> and the accusative unit \<open>2\<close> pass.
\<close>

theorem last_check_conflict_not_false:
  "length [1, 2, 3 :: nat] = length (matchers np_ex3) \<and>
   fst (Construction_check np_ex3 () [1, 2, 3]) \<and>
   collect_seq (map pattern (matchers np_ex3)) (map kr_deep [1, 2]) [] =
     Inr (True, [(''@x'', {''ACC'', ''NOM''})]) \<and>
   NPConstruction_last_check kr_deep np_ex3 [1, 2, 3] = Inl TypeError \<and>
   length [1, 2 :: nat] = length (matchers np_agr_first) \<and>
   fst (Construction_check np_agr_first () [1, 2]) \<and>
   list_all2 shape_ok (map pattern (matchers np_agr_first)) (map kr_agr [1, 2]) \<and>
   spec_bindings (pattern (matchers np_agr_first ! 0)) (kr_agr 1) = [(''@x'', ''NOM'')] \<and>
   spec_bindings (pattern (matchers np_agr_first ! 1)) (kr_agr 2) = [(''@x'', ''ACC'')] \<and>
   NPConstruction_last_check kr_agr np_agr_first [1, 2] = Inr True"
proof -
  have l: "length (matchers np_ex3) = 3" "length (matchers np_agr_first) = 2"
    using arg_cong [OF np_ex3_matchers, of length] arg_cong [OF np_agr_first_matchers, of length]
    by simp_all
  have k: "fst (Construction_check np_ex3 () [1, 2, 3])"
    "fst (Construction_check np_agr_first () [1, 2])"
    by (simp_all add: Construction_check_def np_ex3_control np_agr_control reset_def read_def
        in_final_def Let_def)
  have c: "collect_seq (map pattern (matchers np_ex3)) (map kr_deep [1, 2]) [] =
     Inr (True, [(''@x'', {''ACC'', ''NOM''})])"
    by (simp add: np_ex3_matchers kr_deep_def kr_ex_def greeks_add_def)
  have e: "NPConstruction_last_check kr_deep np_ex3 [1, 2, 3] = Inl TypeError"
    by (simp add: NPConstruction_last_check_def Let_def l np_ex3_matchers kr_deep_def kr_ex_def
        greeks_add_def)
  have p: "pattern (matchers np_agr_first ! 0) =
      [(''AGR'', TDict [(''PERS'', TStr ''3'')]), (''CAS'', TStr ''@x'')]"
    "pattern (matchers np_agr_first ! 1) =
      [(''AGR'', TDict [(''PERS'', TStr ''3'')]), (''CAS'', TStr ''@x'')]"
    using arg_cong [OF np_agr_first_matchers, of "\<lambda>ps. ps ! 0"]
      arg_cong [OF np_agr_first_matchers, of "\<lambda>ps. ps ! 1"] l(2)
    by simp_all
  have s: "list_all2 shape_ok (map pattern (matchers np_agr_first)) (map kr_agr [1, 2])"
    by (simp add: np_agr_first_matchers kr_agr_def)
  have b: "spec_bindings (pattern (matchers np_agr_first ! 0)) (kr_agr 1) = [(''@x'', ''NOM'')]"
    "spec_bindings (pattern (matchers np_agr_first ! 1)) (kr_agr 2) = [(''@x'', ''ACC'')]"
    unfolding p by (simp_all add: kr_agr_def)
  have t: "NPConstruction_last_check kr_agr np_agr_first [1, 2] = Inr True"
    by (simp add: NPConstruction_last_check_def Let_def l np_agr_first_matchers kr_agr_def)
  show ?thesis
    using l k c e s b t by simp
qed




section \<open>Properties of constructions.py\<close>

subsection \<open>The matching loop\<close>

lemma values_update: "snd ` set (AList.update k v al) \<subseteq> insert v (snd ` set al)"
  by (induction al) auto

lemma match_loop_raise:
  "distinct ks \<Longrightarrow> snd ` set pairs \<inter> set ks = {} \<Longrightarrow>
   (match_loop (map (\<lambda>m. (m, f m)) ks) pairs = Inl e) =
   (e = NotImplementedError \<and>
    (\<exists>i<length ks. 1 < length (f (ks ! i)) \<and> (\<forall>j<i. length (f (ks ! j)) = 1)))"
proof (induction ks arbitrary: pairs)
  case Nil
  show ?case by simp
next
  case (Cons m ks)
  consider "1 < length (f m)" | "length (f m) = 0" | "length (f m) = 1"
    by linarith
  then show ?case
  proof cases
    case 1
    then show ?thesis by (simp add: Ex_less_Suc2) blast
  next
    case 2
    then show ?thesis by (simp add: Ex_less_Suc2 All_less_Suc2)
  next
    case 3
    have m: "m \<notin> snd ` set pairs"
      using Cons.prems by auto
    have inv: "snd ` set (AList.update (f m ! 0) m pairs) \<inter> set ks = {}"
      using values_update [of "f m ! 0" m pairs] Cons.prems by auto
    have d: "distinct ks"
      using Cons.prems by simp
    show ?thesis
      using Cons.IH [OF d inv] 3 m by (simp add: Ex_less_Suc2 All_less_Suc2)
  qed
qed

lemma match_loop_success:
  "distinct ks \<Longrightarrow> snd ` set pairs \<inter> set ks = {} \<Longrightarrow>
   (match_loop (map (\<lambda>m. (m, f m)) ks) pairs = Inr (Some r)) =
   ((\<forall>m \<in> set ks. length (f m) = 1) \<and> r = fold (\<lambda>m. AList.update (f m ! 0) m) ks pairs)"
proof (induction ks arbitrary: pairs)
  case Nil
  show ?case by auto
next
  case (Cons m ks)
  consider "1 < length (f m)" | "length (f m) = 0" | "length (f m) = 1"
    by linarith
  then show ?case
  proof cases
    case 1
    then show ?thesis by simp
  next
    case 2
    then show ?thesis by simp
  next
    case 3
    have m: "m \<notin> snd ` set pairs"
      using Cons.prems by auto
    have inv: "snd ` set (AList.update (f m ! 0) m pairs) \<inter> set ks = {}"
      using values_update [of "f m ! 0" m pairs] Cons.prems by auto
    have d: "distinct ks"
      using Cons.prems by simp
    show ?thesis
      using Cons.IH [OF d inv] 3 m by simp
  qed
qed

lemma fold_update_keys:
  "fst ` set (fold (\<lambda>m. AList.update (s m) m) ks pairs) = s ` set ks \<union> fst ` set pairs"
proof (induction ks arbitrary: pairs)
  case Nil
  show ?case by simp
next
  case (Cons m ks)
  have "fst ` set (AList.update (s m) m pairs) = insert (s m) (fst ` set pairs)"
    by (simp add: dom_update)
  then show ?case
    using Cons [of "AList.update (s m) m pairs"] by auto
qed

lemma fold_update_distinct:
  "distinct (map fst pairs) \<Longrightarrow> distinct (map fst (fold (\<lambda>m. AList.update (s m) m) ks pairs))"
  by (induction ks arbitrary: pairs) (simp_all add: distinct_update)

lemma fold_update_length:
  "length (fold (\<lambda>m. AList.update (s m) m) ks []) = card (s ` set ks)"
proof -
  let ?r = "fold (\<lambda>m. AList.update (s m) m) ks []"
  have "distinct (map fst ?r)"
    by (rule fold_update_distinct) simp
  then have "card (set (map fst ?r)) = length (map fst ?r)"
    by (rule distinct_card)
  then show ?thesis
    by (simp add: fold_update_keys)
qed

lemma fold_update_map_of_other:
  "k \<notin> s ` set ks \<Longrightarrow> map_of (fold (\<lambda>m. AList.update (s m) m) ks pairs) k = map_of pairs k"
  by (induction ks arbitrary: pairs) (simp_all add: update_conv')

lemma fold_update_map_of:
  "inj_on s (set ks) \<Longrightarrow> m \<in> set ks \<Longrightarrow>
   map_of (fold (\<lambda>m. AList.update (s m) m) ks pairs) (s m) = Some m"
proof (induction ks arbitrary: pairs)
  case Nil
  then show ?case by simp
next
  case (Cons x ks)
  have inj: "inj_on s (set ks)"
    using Cons.prems(1) by (simp add: inj_on_def)
  show ?case
  proof (cases "m \<in> set ks")
    case True
    then show ?thesis
      using Cons.IH [OF inj True] by simp
  next
    case False
    then have mx: "m = x"
      using Cons.prems(2) by simp
    have "s x \<notin> s ` set ks"
      using Cons.prems(1) False mx by (auto simp: inj_on_def)
    then show ?thesis
      using fold_update_map_of_other [of "s x" s ks "AList.update (s x) x pairs"] mx
      by (simp add: update_conv')
  qed
qed

lemma dict_order_keys:
  "dict_order order \<Longrightarrow> distinct (order (remdups ms)) \<and> set (order (remdups ms)) = set ms"
  by (simp add: dict_order_def)

lemma match_Some_iff:
  assumes "dict_order order"
  shows "(SimpleConstruction_match order is_a c ms = Inr (Some pairs)) =
     (length ms = length (rule_right c) \<and>
      (\<forall>m \<in> set ms. length (filter (is_a m) (rule_right c)) = 1) \<and>
      pairs = fold (\<lambda>m. AList.update (filter (is_a m) (rule_right c) ! 0) m) (order (remdups ms)) [] \<and>
      card ((\<lambda>m. filter (is_a m) (rule_right c) ! 0) ` set ms) = length (rule_right c))"
proof -
  let ?ks = "order (remdups ms)"
  let ?f = "\<lambda>m. filter (is_a m) (rule_right c)"
  have ks: "distinct ?ks" "set ?ks = set ms"
    using dict_order_keys [OF assms] by simp_all
  have loop: "(match_loop (map (\<lambda>m. (m, ?f m)) ?ks) [] = Inr (Some r)) =
      ((\<forall>m \<in> set ms. length (?f m) = 1) \<and> r = fold (\<lambda>m. AList.update (?f m ! 0) m) ?ks [])" for r
    using match_loop_success [of ?ks "[]" ?f r] ks by simp
  have len: "length (fold (\<lambda>m. AList.update (?f m ! 0) m) ?ks []) = card ((\<lambda>m. ?f m ! 0) ` set ms)"
    using fold_update_length [of "\<lambda>m. ?f m ! 0" ?ks] ks by simp
  show ?thesis
  proof (cases "match_loop (map (\<lambda>m. (m, ?f m)) ?ks) []")
    case (Inl e)
    then have "\<not> (\<forall>m \<in> set ms. length (?f m) = 1)"
      using loop by auto
    then show ?thesis
      using Inl by (auto simp: SimpleConstruction_match_def)
  next
    case (Inr ro)
    show ?thesis
    proof (cases ro)
      case None
      then have "\<not> (\<forall>m \<in> set ms. length (?f m) = 1)"
        using loop Inr by auto
      then show ?thesis
        using Inr None by (auto simp: SimpleConstruction_match_def)
    next
      case (Some r)
      then have r: "(\<forall>m \<in> set ms. length (?f m) = 1)" "r = fold (\<lambda>m. AList.update (?f m ! 0) m) ?ks []"
        using loop [of r] Inr by simp_all
      show ?thesis
        using Inr Some r len by (auto simp: SimpleConstruction_match_def)
    qed
  qed
qed

lemma match_Inl_iff:
  assumes "dict_order order"
  shows "(SimpleConstruction_match order is_a c ms = Inl e) =
     (e = NotImplementedError \<and> length ms = length (rule_right c) \<and>
      (\<exists>i<length (order (remdups ms)).
          1 < length (filter (is_a (order (remdups ms) ! i)) (rule_right c)) \<and>
          (\<forall>j<i. length (filter (is_a (order (remdups ms) ! j)) (rule_right c)) = 1)))"
proof -
  let ?ks = "order (remdups ms)"
  let ?f = "\<lambda>m. filter (is_a m) (rule_right c)"
  let ?ml = "match_loop (map (\<lambda>m. (m, ?f m)) ?ks) []"
  define P where "P = (\<exists>i<length ?ks. 1 < length (?f (?ks ! i)) \<and> (\<forall>j<i. length (?f (?ks ! j)) = 1))"
  have ks: "distinct ?ks"
    using dict_order_keys [OF assms] by simp
  have loop: "(?ml = Inl e') = (e' = NotImplementedError \<and> P)" for e'
    unfolding P_def using match_loop_raise [of ?ks "[]" ?f e'] ks by simp
  have "(SimpleConstruction_match order is_a c ms = Inl e) =
          (e = NotImplementedError \<and> length ms = length (rule_right c) \<and> P)"
  proof (cases ?ml)
    case (Inl e')
    then have "e' = NotImplementedError" and P
      using loop [of e'] by simp_all
    then show ?thesis
      using Inl by (auto simp: SimpleConstruction_match_def)
  next
    case (Inr ro)
    then have "\<not> P"
      using loop [of NotImplementedError] by simp
    then show ?thesis
      using Inr by (simp add: SimpleConstruction_match_def split: option.splits)
  qed
  then show ?thesis
    unfolding P_def .
qed

lemma card_image_length_iff:
  "(card (s ` set ms) = length ms) = (distinct ms \<and> inj_on s (set ms))"
proof
  assume eq: "card (s ` set ms) = length ms"
  have a: "card (s ` set ms) \<le> card (set ms)"
    by (simp add: card_image_le)
  have b: "card (set ms) \<le> length ms"
    by (rule card_length)
  from eq a b have c: "card (set ms) = length ms" and d: "card (s ` set ms) = card (set ms)"
    by simp_all
  from c have "distinct ms"
    by (rule card_distinct)
  moreover from d have "inj_on s (set ms)"
    by (simp add: eq_card_imp_inj_on)
  ultimately show "distinct ms \<and> inj_on s (set ms)" ..
next
  assume "distinct ms \<and> inj_on s (set ms)"
  then show "card (s ` set ms) = length ms"
    by (simp add: card_image distinct_card)
qed

lemma slot_in_rule:
  "length (filter P rr) = 1 \<Longrightarrow> filter P rr ! 0 \<in> set rr \<and> P (filter P rr ! 0)"
proof -
  assume "length (filter P rr) = 1"
  then have "filter P rr ! 0 \<in> set (filter P rr)"
    by (simp add: nth_mem del: set_filter)
  then show ?thesis by simp
qed

lemma match_Some_iff_inj:
  assumes "dict_order order"
  shows "(\<exists>pairs. SimpleConstruction_match order is_a c ms = Inr (Some pairs)) =
     (length ms = length (rule_right c) \<and> distinct ms \<and>
      (\<forall>m \<in> set ms. length (filter (is_a m) (rule_right c)) = 1) \<and>
      inj_on (\<lambda>m. filter (is_a m) (rule_right c) ! 0) (set ms))"
proof -
  let ?s = "\<lambda>m. filter (is_a m) (rule_right c) ! 0"
  have "length ms = length (rule_right c) \<Longrightarrow>
      (card (?s ` set ms) = length (rule_right c)) = (distinct ms \<and> inj_on ?s (set ms))"
    using card_image_length_iff [of ?s ms] by simp
  then show ?thesis
    unfolding match_Some_iff [OF assms] by auto
qed

lemma match_Some_bij:
  assumes "dict_order order"
    and "SimpleConstruction_match order is_a c ms = Inr (Some pairs)"
  shows "bij_betw (\<lambda>m. filter (is_a m) (rule_right c) ! 0) (set ms) (set (rule_right c))"
    and "\<forall>m \<in> set ms. map_of pairs (filter (is_a m) (rule_right c) ! 0) = Some m"
    and "\<forall>m \<in> set ms. is_a m (filter (is_a m) (rule_right c) ! 0)"
proof -
  let ?s = "\<lambda>m. filter (is_a m) (rule_right c) ! 0"
  let ?ks = "order (remdups ms)"
  from assms(2) have len: "length ms = length (rule_right c)"
    and single: "\<forall>m \<in> set ms. length (filter (is_a m) (rule_right c)) = 1"
    and pairs: "pairs = fold (\<lambda>m. AList.update (?s m) m) ?ks []"
    and card: "card (?s ` set ms) = length (rule_right c)"
    unfolding match_Some_iff [OF assms(1)] by simp_all
  have ks: "distinct ?ks" "set ?ks = set ms"
    using dict_order_keys [OF assms(1)] by simp_all
  have inj: "inj_on ?s (set ms)"
    using card len card_image_length_iff [of ?s ms] by simp
  have sub: "?s ` set ms \<subseteq> set (rule_right c)"
    using single slot_in_rule by blast
  have "card (set (rule_right c)) \<le> card (?s ` set ms)"
    using card card_length [of "rule_right c"] by simp
  then have "?s ` set ms = set (rule_right c)"
    using sub by (simp add: card_seteq)
  then show "bij_betw ?s (set ms) (set (rule_right c))"
    using inj by (simp add: bij_betw_def)
  show "\<forall>m \<in> set ms. map_of pairs (?s m) = Some m"
    using fold_update_map_of [of ?s ?ks _ "[]"] inj ks pairs by simp
  show "\<forall>m \<in> set ms. is_a m (?s m)"
    using single slot_in_rule by blast
qed

lemma match_no_raise:
  assumes "dict_order order" and "\<forall>m \<in> set ms. length (filter (is_a m) (rule_right c)) \<le> 1"
  shows "SimpleConstruction_match order is_a c ms \<noteq> Inl e"
proof
  assume "SimpleConstruction_match order is_a c ms = Inl e"
  then obtain i where i: "i < length (order (remdups ms))"
      "1 < length (filter (is_a (order (remdups ms) ! i)) (rule_right c))"
    unfolding match_Inl_iff [OF assms(1)] by blast
  have "order (remdups ms) ! i \<in> set ms"
    using dict_order_keys [OF assms(1), of ms] i(1) nth_mem by blast
  then show False
    using assms(2) i(2) by fastforce
qed

lemma append_regex_match_shape:
  "CHR ''['' \<notin> set into \<Longrightarrow> CHR '']'' \<notin> set what \<Longrightarrow>
   append_regex_match (into @ ''['' @ what @ '']'') = Some (into, what)"
proof -
  assume a: "CHR ''['' \<notin> set into" and b: "CHR '']'' \<notin> set what"
  have ia: "ch \<noteq> CHR ''[''" if "ch \<in> set into" for ch
    using a that by auto
  have wb: "ch \<noteq> CHR '']''" if "ch \<in> set what" for ch
    using b that by auto
  have 1: "dropWhile (\<lambda>ch. ch \<noteq> CHR ''['') (into @ ''['' @ what @ '']'') = ''['' @ what @ '']''"
    using dropWhile_append2 [of into "\<lambda>ch. ch \<noteq> CHR ''[''" "''['' @ what @ '']''"] ia by simp
  have 2: "takeWhile (\<lambda>ch. ch \<noteq> CHR ''['') (into @ ''['' @ what @ '']'') = into"
    using takeWhile_append2 [of into "\<lambda>ch. ch \<noteq> CHR ''[''" "''['' @ what @ '']''"] ia by simp
  have 3: "dropWhile (\<lambda>ch. ch \<noteq> CHR '']'') (what @ '']'') = '']''"
    using dropWhile_append2 [of what "\<lambda>ch. ch \<noteq> CHR '']''" "'']''"] wb by simp
  have 4: "takeWhile (\<lambda>ch. ch \<noteq> CHR '']'') (what @ '']'') = what"
    using takeWhile_append2 [of what "\<lambda>ch. ch \<noteq> CHR '']''" "'']''"] wb by simp
  show ?thesis
    unfolding append_regex_match_def 1 2 using 3 4 by simp
qed

lemma dict_order_id: "dict_order (\<lambda>xs. xs)"
  by (simp add: dict_order_def)


text \<open>
  A code of the shape \<open>INTO[WHAT]\<close> makes the constructor return a construction with the
  Merge command, whatever the regular expression library does; for any code, the
  constructor returns a construction with the rule it was given, or the library raised.
\<close>

lemma SimpleConstruction_init_Merge:
  "CHR ''['' \<notin> set into \<Longrightarrow> CHR '']'' \<notin> set what \<Longrightarrow>
   SimpleConstruction_init re l r (into @ ''['' @ what @ '']'') =
     Inr \<lparr>rule_left = l, rule_right = r, command = Some (AppendRegexCommand into what)\<rparr>"
proof -
  assume "CHR ''['' \<notin> set into" and "CHR '']'' \<notin> set what"
  then have m: "append_regex_match (into @ ''['' @ what @ '']'') = Some (into, what)"
    by (rule append_regex_match_shape)
  show ?thesis
    unfolding SimpleConstruction_init_def get_instance_def m by simp
qed

lemma SimpleConstruction_init_cases:
  "SimpleConstruction_init re l r code = Inl RegexError \<or>
   (\<exists>c. SimpleConstruction_init re l r code = Inr c \<and> rule_left c = l \<and> rule_right c = r)"
  by (simp add: SimpleConstruction_init_def get_instance_def split: option.splits)

lemma rule_ex_init:
  "SimpleConstruction_init re ''NP'' [''DET'', ''ADJ'', ''NOUN''] ''NOUN[DET]'' = Inr rule_ex"
  using SimpleConstruction_init_Merge [of "''NOUN''" "''DET''" re "''NP''" "[''DET'', ''ADJ'', ''NOUN'']"]
  by (simp add: rule_ex_def)

lemma rule_dn_init:
  "SimpleConstruction_init re ''NP'' [''DET'', ''N'', ''NOUN''] ''NOUN[DET]'' = Inr rule_dn"
  using SimpleConstruction_init_Merge [of "''NOUN''" "''DET''" re "''NP''" "[''DET'', ''N'', ''NOUN'']"]
  by (simp add: rule_dn_def)

lemma rule_n_init:
  "SimpleConstruction_init re_literal ''NP'' [''N'', ''NOUN''] ''N'' = Inr rule_n"
  by (simp add: SimpleConstruction_init_def get_instance_def append_regex_match_def
      re_literal_def rule_n_def)

lemma rule_ex_fields:
  "rule_right rule_ex = [''DET'', ''ADJ'', ''NOUN'']"
  "command rule_ex = Some (AppendRegexCommand ''NOUN'' ''DET'')"
  by (simp_all add: rule_ex_def)

lemma rule_ex_match:
  "SimpleConstruction_match (\<lambda>xs. xs) is_a_ex rule_ex [1, 2, 3] =
     Inr (Some [(''DET'', 1), (''ADJ'', 2), (''NOUN'', 3)])"
  by (simp add: SimpleConstruction_match_def rule_ex_fields is_a_ex_def tag_ex_def)

subsection \<open>Where an ambiguous unit is rejected\<close>

text \<open>
  C3, as claimed, fails: the construction with the overlapping slots \<open>N\<close> and \<open>NOUN\<close>
  is built without an error (the constructor has no check of the rule), and the error
  is raised by \<open>__match__\<close>, on the first sequence with a noun.
\<close>

theorem match_raises_in_matching:
  "SimpleConstruction_init re_literal ''NP'' [''N'', ''NOUN''] ''N'' = Inr rule_n \<and>
   SimpleConstruction_match (\<lambda>xs. xs) is_a_ex rule_n [3, 5] = Inl NotImplementedError"
  by (simp add: rule_n_init) (simp add: SimpleConstruction_match_def rule_n_def is_a_ex_def tag_ex_def)


text \<open>
  C3, amended. The constructor never raises this error: it returns a construction with the
  rule it was given, unless the regular expression library raises its own error on the
  code. \<open>__match__\<close> of the construction raises \<open>NotImplementedError\<close>, and nothing
  else, exactly when the sequence has the length of the rule and, in the order of the
  dictionary of the units, a unit satisfying more than one slot comes before every unit
  that does not satisfy exactly one slot.
\<close>

theorem match_raises_iff:
  assumes "dict_order order"
  shows "SimpleConstruction_init re l r code \<noteq> Inl NotImplementedError \<and>
     (SimpleConstruction_init re l r code = Inl RegexError \<or>
      (\<exists>c. SimpleConstruction_init re l r code = Inr c \<and> rule_right c = r)) \<and>
     (\<forall>c. SimpleConstruction_init re l r code = Inr c \<longrightarrow>
        (SimpleConstruction_match order is_a c ms = Inl e) =
          (e = NotImplementedError \<and> length ms = length r \<and>
           (\<exists>i<length (order (remdups ms)).
               1 < length (filter (is_a (order (remdups ms) ! i)) r) \<and>
               (\<forall>j<i. length (filter (is_a (order (remdups ms) ! j)) r) = 1))))"
proof (intro conjI allI impI)
  show "SimpleConstruction_init re l r code \<noteq> Inl NotImplementedError"
    using SimpleConstruction_init_cases [of re l r code] by auto
  show "SimpleConstruction_init re l r code = Inl RegexError \<or>
      (\<exists>c. SimpleConstruction_init re l r code = Inr c \<and> rule_right c = r)"
    using SimpleConstruction_init_cases [of re l r code] by blast
next
  fix c
  assume "SimpleConstruction_init re l r code = Inr c"
  then have "rule_right c = r"
    using SimpleConstruction_init_cases [of re l r code] by auto
  then show "(SimpleConstruction_match order is_a c ms = Inl e) =
     (e = NotImplementedError \<and> length ms = length r \<and>
      (\<exists>i<length (order (remdups ms)).
          1 < length (filter (is_a (order (remdups ms) ! i)) r) \<and>
          (\<forall>j<i. length (filter (is_a (order (remdups ms) ! j)) r) = 1)))"
    using match_Inl_iff [OF assms, of is_a c ms e] by simp
qed


text \<open>
  The construction of the rule \<open>NP / DET N NOUN / NOUN[DET]\<close> is built, and \<open>__match__\<close>
  raises on the determiner \<open>1\<close> and the nouns \<open>3\<close> and \<open>6\<close>.
\<close>

theorem match_raises_iff_witness:
  "dict_order (\<lambda>xs :: nat list. xs) \<and>
   SimpleConstruction_init re_literal ''NP'' [''DET'', ''N'', ''NOUN''] ''NOUN[DET]'' = Inr rule_dn \<and>
   SimpleConstruction_match (\<lambda>xs. xs) is_a_ex rule_dn [1, 3, 6] = Inl NotImplementedError"
proof -
  have r: "NotImplementedError = NotImplementedError \<and>
      length [1, 3, 6 :: nat] = length [''DET'', ''N'', ''NOUN''] \<and>
      (\<exists>i<length (remdups [1, 3, 6 :: nat]).
          1 < length (filter (is_a_ex (remdups [1, 3, 6] ! i)) [''DET'', ''N'', ''NOUN'']) \<and>
          (\<forall>j<i. length (filter (is_a_ex (remdups [1, 3, 6] ! j)) [''DET'', ''N'', ''NOUN'']) = 1))"
    by (intro conjI exI [of _ 1]) (simp_all add: is_a_ex_def tag_ex_def)
  note t = match_raises_iff [OF dict_order_id, of re_literal "''NP''" "[''DET'', ''N'', ''NOUN'']"
      "''NOUN[DET]''" is_a_ex "[1, 3, 6]" NotImplementedError]
  from t have "SimpleConstruction_init re_literal ''NP'' [''DET'', ''N'', ''NOUN''] ''NOUN[DET]'' =
      Inr rule_dn \<longrightarrow>
      (SimpleConstruction_match (\<lambda>xs. xs) is_a_ex rule_dn [1, 3, 6] = Inl NotImplementedError) =
        (NotImplementedError = NotImplementedError \<and>
         length [1, 3, 6 :: nat] = length [''DET'', ''N'', ''NOUN''] \<and>
         (\<exists>i<length (remdups [1, 3, 6 :: nat]).
            1 < length (filter (is_a_ex (remdups [1, 3, 6] ! i)) [''DET'', ''N'', ''NOUN'']) \<and>
            (\<forall>j<i. length (filter (is_a_ex (remdups [1, 3, 6] ! j)) [''DET'', ''N'', ''NOUN'']) = 1)))"
    by blast
  then have "SimpleConstruction_match (\<lambda>xs. xs) is_a_ex rule_dn [1, 3, 6] = Inl NotImplementedError"
    using rule_dn_init [of re_literal] r by blast
  then show ?thesis
    using dict_order_id rule_dn_init [of re_literal] by simp
qed


subsection \<open>Matching is the bijection between units and slots\<close>

text \<open>
  C5, as claimed, fails where two units compete for a slot and a third satisfies two
  slots: the determiners \<open>1\<close> and \<open>4\<close> compete for \<open>DET\<close>, the noun \<open>3\<close>
  satisfies \<open>N\<close> and \<open>NOUN\<close>, and the result is the exception, not \<open>False\<close> (in
  any order of the three units: the competition is only detected after the loop).
\<close>

theorem match_competing_raises:
  "SimpleConstruction_init re_literal ''NP'' [''DET'', ''N'', ''NOUN''] ''NOUN[DET]'' = Inr rule_dn \<and>
   SimpleConstruction_match (\<lambda>xs. xs) is_a_ex rule_dn [1, 4, 3] = Inl NotImplementedError"
  by (simp add: rule_dn_init) (simp add: SimpleConstruction_match_def rule_dn_def is_a_ex_def tag_ex_def)


text \<open>
  C5, amended. \<open>__match__\<close> returns a mapping iff the sequence has the length of the
  rule, its units are pairwise different, each satisfies exactly one slot and no two
  satisfy the same slot; the slot of a unit is then a bijection between the units and
  the slots of the rule, and the mapping sends the slot of each unit to the unit. In
  every other case no mapping is returned and \<open>do\<close> does not run the command: the
  result is \<open>False\<close> (and \<open>do\<close> returns \<open>None\<close>, the heap untouched) or the
  exception \<open>NotImplementedError\<close>; it is \<open>False\<close> whenever no unit satisfies more than
  one slot, and whenever the length of the sequence is not the length of the rule.
\<close>

theorem match_bijection:
  assumes "dict_order order"
  shows
    "((\<exists>pairs. SimpleConstruction_match order is_a c ms = Inr (Some pairs)) =
        (length ms = length (rule_right c) \<and> distinct ms \<and>
         (\<forall>m \<in> set ms. length (filter (is_a m) (rule_right c)) = 1) \<and>
         inj_on (\<lambda>m. filter (is_a m) (rule_right c) ! 0) (set ms))) \<and>
     (\<forall>pairs. SimpleConstruction_match order is_a c ms = Inr (Some pairs) \<longrightarrow>
        bij_betw (\<lambda>m. filter (is_a m) (rule_right c) ! 0) (set ms) (set (rule_right c)) \<and>
        (\<forall>m \<in> set ms. map_of pairs (filter (is_a m) (rule_right c) ! 0) = Some m)) \<and>
     ((\<forall>pairs. SimpleConstruction_match order is_a c ms \<noteq> Inr (Some pairs)) \<longrightarrow>
        SimpleConstruction_match order is_a c ms = Inr None \<and>
          SimpleConstruction_do order is_a c h ms = Inr (None, h) \<or>
        SimpleConstruction_match order is_a c ms = Inl NotImplementedError \<and>
          SimpleConstruction_do order is_a c h ms = Inl NotImplementedError) \<and>
     ((\<forall>pairs. SimpleConstruction_match order is_a c ms \<noteq> Inr (Some pairs)) \<and>
      (\<forall>m \<in> set ms. length (filter (is_a m) (rule_right c)) \<le> 1) \<longrightarrow>
        SimpleConstruction_match order is_a c ms = Inr None) \<and>
     (length ms \<noteq> length (rule_right c) \<longrightarrow> SimpleConstruction_match order is_a c ms = Inr None)"
proof (intro conjI allI impI)
  show "(\<exists>pairs. SimpleConstruction_match order is_a c ms = Inr (Some pairs)) =
        (length ms = length (rule_right c) \<and> distinct ms \<and>
         (\<forall>m \<in> set ms. length (filter (is_a m) (rule_right c)) = 1) \<and>
         inj_on (\<lambda>m. filter (is_a m) (rule_right c) ! 0) (set ms))"
    by (rule match_Some_iff_inj [OF assms])
next
  fix pairs
  assume "SimpleConstruction_match order is_a c ms = Inr (Some pairs)"
  from match_Some_bij [OF assms this]
  show "bij_betw (\<lambda>m. filter (is_a m) (rule_right c) ! 0) (set ms) (set (rule_right c))"
    and "\<forall>m \<in> set ms. map_of pairs (filter (is_a m) (rule_right c) ! 0) = Some m"
    by simp_all
next
  assume no: "\<forall>pairs. SimpleConstruction_match order is_a c ms \<noteq> Inr (Some pairs)"
  show "SimpleConstruction_match order is_a c ms = Inr None \<and>
          SimpleConstruction_do order is_a c h ms = Inr (None, h) \<or>
        SimpleConstruction_match order is_a c ms = Inl NotImplementedError \<and>
          SimpleConstruction_do order is_a c h ms = Inl NotImplementedError"
  proof (cases "SimpleConstruction_match order is_a c ms")
    case (Inl e)
    then have "e = NotImplementedError"
      using match_Inl_iff [OF assms, of is_a c ms e] by simp
    then show ?thesis
      using Inl by (simp add: SimpleConstruction_do_def)
  next
    case (Inr ro)
    then have "ro = None"
      using no by (cases ro) simp_all
    then show ?thesis
      using Inr by (simp add: SimpleConstruction_do_def)
  qed
next
  assume a: "(\<forall>pairs. SimpleConstruction_match order is_a c ms \<noteq> Inr (Some pairs)) \<and>
      (\<forall>m \<in> set ms. length (filter (is_a m) (rule_right c)) \<le> 1)"
  show "SimpleConstruction_match order is_a c ms = Inr None"
  proof (cases "SimpleConstruction_match order is_a c ms")
    case (Inl e)
    then show ?thesis
      using match_no_raise [OF assms, of ms is_a c e] a by simp
  next
    case (Inr ro)
    then show ?thesis
      using a by (cases ro) simp_all
  qed
next
  assume "length ms \<noteq> length (rule_right c)"
  then show "SimpleConstruction_match order is_a c ms = Inr None"
    by (simp add: SimpleConstruction_match_def)
qed

theorem match_bijection_witness:
  "dict_order (\<lambda>xs :: nat list. xs) \<and>
   SimpleConstruction_match (\<lambda>xs. xs) is_a_ex rule_ex [1, 2, 3] =
     Inr (Some [(''DET'', 1), (''ADJ'', 2), (''NOUN'', 3)]) \<and>
   bij_betw (\<lambda>m. filter (is_a_ex m) (rule_right rule_ex) ! 0) (set [1, 2, 3])
     (set (rule_right rule_ex)) \<and>
   SimpleConstruction_do (\<lambda>xs. xs) is_a_ex rule_ex heap_ex [1, 4, 3] = Inr (None, heap_ex) \<and>
   SimpleConstruction_do (\<lambda>xs. xs) is_a_ex rule_ex heap_ex [1, 2] = Inr (None, heap_ex)"
proof -
  have a: "SimpleConstruction_do (\<lambda>xs. xs) is_a_ex rule_ex heap_ex [1, 4, 3] = Inr (None, heap_ex)"
    by (simp add: SimpleConstruction_do_def SimpleConstruction_match_def rule_ex_fields
        is_a_ex_def tag_ex_def)
  have b: "SimpleConstruction_do (\<lambda>xs. xs) is_a_ex rule_ex heap_ex [1, 2] = Inr (None, heap_ex)"
    by (simp add: SimpleConstruction_do_def SimpleConstruction_match_def rule_ex_fields)
  show ?thesis
    using match_bijection [OF dict_order_id, of is_a_ex rule_ex "[1, 2, 3]" heap_ex]
      rule_ex_match a b dict_order_id
    by simp
qed

subsection \<open>The Merge command\<close>

text \<open>
  C8. For a rule \<open>r\<close> and a code \<open>INTO[WHAT]\<close>, with both labels among the slots of the
  rule: the constructor returns a construction (whatever the regular expression library
  does) whose command is \<open>AppendRegexCommand INTO WHAT\<close>, and on a sequence that matches,
  every unit having a partition \<open>1\<close>, \<open>do\<close> puts the unit matched by \<open>WHAT\<close> at the
  end of partition \<open>1\<close> of the unit matched by \<open>INTO\<close> and returns the list of that
  one unit.
\<close>

theorem Merge_command:
  assumes "dict_order order"
    and "CHR ''['' \<notin> set into" and "CHR '']'' \<notin> set what"
    and "into \<in> set r" and "what \<in> set r"
    and "\<forall>m \<in> set ms. 1 < length (h m)"
  shows "\<exists>c. SimpleConstruction_init re l r (into @ ''['' @ what @ '']'') = Inr c \<and>
     command c = Some (AppendRegexCommand into what) \<and>
     (\<forall>pairs. SimpleConstruction_match order is_a c ms = Inr (Some pairs) \<longrightarrow>
        (\<exists>mi mw. mi \<in> set ms \<and> mw \<in> set ms \<and> is_a mi into \<and> is_a mw what \<and>
           map_of pairs into = Some mi \<and> map_of pairs what = Some mw \<and>
           SimpleConstruction_do order is_a c h ms =
             Inr (Some [mi], h(mi := (h mi)[1 := h mi ! 1 @ [mw]]))))"
proof -
  define c where "c = \<lparr>rule_left = l, rule_right = r, command = Some (AppendRegexCommand into what)\<rparr>"
  have init: "SimpleConstruction_init re l r (into @ ''['' @ what @ '']'') = Inr c"
    unfolding c_def using assms(2,3) by (rule SimpleConstruction_init_Merge)
  have rr: "rule_right c = r" and cmd: "command c = Some (AppendRegexCommand into what)"
    by (simp_all add: c_def)
  have "\<exists>mi mw. mi \<in> set ms \<and> mw \<in> set ms \<and> is_a mi into \<and> is_a mw what \<and>
      map_of pairs into = Some mi \<and> map_of pairs what = Some mw \<and>
      SimpleConstruction_do order is_a c h ms =
        Inr (Some [mi], h(mi := (h mi)[1 := h mi ! 1 @ [mw]]))"
    if m: "SimpleConstruction_match order is_a c ms = Inr (Some pairs)" for pairs
  proof -
    let ?s = "\<lambda>m. filter (is_a m) (rule_right c) ! 0"
    from match_Some_bij [OF assms(1) m]
    have bij: "bij_betw ?s (set ms) (set r)"
      and look: "\<forall>m \<in> set ms. map_of pairs (?s m) = Some m"
      and isa: "\<forall>m \<in> set ms. is_a m (?s m)"
      by (simp_all add: rr)
    from bij have img: "?s ` set ms = set r"
      by (simp add: bij_betw_def)
    have "into \<in> ?s ` set ms"
      unfolding img by (rule assms(4))
    then obtain mi where mi: "mi \<in> set ms" "into = ?s mi"
      by (rule imageE)
    have "what \<in> ?s ` set ms"
      unfolding img by (rule assms(5))
    then obtain mw where mw: "mw \<in> set ms" "what = ?s mw"
      by (rule imageE)
    have li: "map_of pairs into = Some mi" and lw: "map_of pairs what = Some mw"
      using look mi mw by auto
    have ii: "is_a mi into" and iw: "is_a mw what"
      using isa mi mw by auto
    have ne: "pairs \<noteq> []"
      using li by auto
    have ap: "Machine_append 1 mw (h mi) = Inr ((h mi)[1 := h mi ! 1 @ [mw]])"
      using assms(6) mi(1) by (simp add: Machine_append_def)
    have "SimpleConstruction_do order is_a c h ms =
            Inr (Some [mi], h(mi := (h mi)[1 := h mi ! 1 @ [mw]]))"
      using ap by (simp add: SimpleConstruction_do_def m ne cmd li lw)
    then show ?thesis
      using mi(1) mw(1) li lw ii iw by blast
  qed
  then show ?thesis
    using init cmd by blast
qed

text \<open>
  The rule \<open>NP / DET ADJ NOUN / NOUN[DET]\<close> on the units \<open>1\<close> (a determiner), \<open>2\<close> (an
  adjective) and \<open>3\<close> (a noun): the determiner is put into partition \<open>1\<close> of the noun,
  and the noun alone is returned.
\<close>

theorem Merge_command_witness:
  "dict_order (\<lambda>xs :: nat list. xs) \<and>
   SimpleConstruction_init re_literal ''NP'' [''DET'', ''ADJ'', ''NOUN''] ''NOUN[DET]'' = Inr rule_ex \<and>
   SimpleConstruction_match (\<lambda>xs. xs) is_a_ex rule_ex [1, 2, 3] =
     Inr (Some [(''DET'', 1), (''ADJ'', 2), (''NOUN'', 3)]) \<and>
   command rule_ex = Some (AppendRegexCommand ''NOUN'' ''DET'') \<and>
   SimpleConstruction_do (\<lambda>xs. xs) is_a_ex rule_ex heap_ex [1, 2, 3] =
     Inr (Some [3], heap_ex(3 := [[], [1]]))"
proof -
  have h: "\<forall>m \<in> set [1, 2, 3 :: nat]. 1 < length (heap_ex m)"
    by (simp add: heap_ex_def)
  have b: "CHR ''['' \<notin> set ''NOUN''" "CHR '']'' \<notin> set ''DET''"
    "''NOUN'' \<in> set [''DET'', ''ADJ'', ''NOUN'']" "''DET'' \<in> set [''DET'', ''ADJ'', ''NOUN'']"
    by simp_all
  from Merge_command [OF dict_order_id b h, of re_literal "''NP''" is_a_ex]
  obtain c where c: "SimpleConstruction_init re_literal ''NP'' [''DET'', ''ADJ'', ''NOUN'']
        (''NOUN'' @ ''['' @ ''DET'' @ '']'') = Inr c"
    and m: "\<forall>pairs. SimpleConstruction_match (\<lambda>xs. xs) is_a_ex c [1, 2, 3] = Inr (Some pairs) \<longrightarrow>
        (\<exists>mi mw. map_of pairs ''NOUN'' = Some mi \<and> map_of pairs ''DET'' = Some mw \<and>
           SimpleConstruction_do (\<lambda>xs. xs) is_a_ex c heap_ex [1, 2, 3] =
             Inr (Some [mi], heap_ex(mi := (heap_ex mi)[1 := heap_ex mi ! 1 @ [mw]])))"
    by blast
  have "c = rule_ex"
    using c rule_ex_init [of re_literal] by simp
  with m rule_ex_match
  obtain mi mw where i: "map_of [(''DET'', 1), (''ADJ'', 2), (''NOUN'', 3 :: nat)] ''NOUN'' = Some mi"
    and w: "map_of [(''DET'', 1), (''ADJ'', 2), (''NOUN'', 3 :: nat)] ''DET'' = Some mw"
    and d: "SimpleConstruction_do (\<lambda>xs. xs) is_a_ex rule_ex heap_ex [1, 2, 3] =
          Inr (Some [mi], heap_ex(mi := (heap_ex mi)[1 := heap_ex mi ! 1 @ [mw]]))"
    by blast
  from i have mi: "mi = 3" by simp
  from w have mw: "mw = 1" by simp
  have "(heap_ex (3 :: nat))[1 := heap_ex 3 ! 1 @ [1 :: nat]] = [[], [1]]"
    by (simp add: heap_ex_def)
  then have "SimpleConstruction_do (\<lambda>xs. xs) is_a_ex rule_ex heap_ex [1, 2, 3] =
     Inr (Some [3], heap_ex(3 := [[], [1]]))"
    using d unfolding mi mw by simp
  then show ?thesis
    using dict_order_id rule_ex_match rule_ex_fields rule_ex_init [of re_literal] by simp
qed

section \<open>Properties of spreading_activation.py\<close>

subsection \<open>The search for a sequence a construction acts on\<close>



















subsection \<open>A base construction changes nothing in the loop\<close>

lemma try_act_no_result: "(\<And>w seq. fst (act c w seq) = None) \<Longrightarrow> fst (try_act c w xs) = None"
proof (induction xs arbitrary: w)
  case Nil
  show ?case by simp
next
  case (Cons x xs)
  obtain r w1 where a: "act c w x = (r, w1)"
    by (cases "act c w x")
  then have "r = None"
    using Cons.prems [of w x] by simp
  then show ?case
    using a Cons.IH [of w1] Cons.prems by simp
qed

text \<open>
  C10. \<open>act\<close> of the base class returns \<open>None\<close> for every construction, world and
  sequence, and so does \<open>run\<close>, whether \<open>check\<close> succeeded or not: with the \<open>check\<close>
  of the base class, and with any other \<open>check\<close> as long as \<open>act\<close> is not overridden.
  In the loop, the step of a base construction leaves every sentence as it was.
\<close>

theorem base_construction_no_result:
  "fst (Construction_act c w seq) = None \<and>
   fst (Construction_run Construction_check Construction_act c w seq) = None \<and>
   fst (Construction_run self_check Construction_act c w seq) = None \<and>
   (\<exists>w'. apply_construction order (sa_of_Construction c) (w, s) = Inr (w', s))"
proof -
  let ?c = "sa_of_Construction c"
  let ?tried = "rev (sort_key length (accepted_seqs order ?c w s))"
  have "fst (act ?c w' seq') = None" for w' seq'
    by (simp add: sa_of_Construction_def Construction_act_None)
  then have "fst (try_act ?c w ?tried) = None"
    by (rule try_act_no_result)
  then obtain w' where "try_act ?c w ?tried = (None, w')"
    by (cases "try_act ?c w ?tried") simp
  then have "apply_construction order ?c (w, s) = Inr (w', s)"
    by (simp add: apply_construction_def)
  then show ?thesis
    using Construction_act_None [of c w seq] Construction_run_None [of Construction_check c w seq]
      Construction_run_None [of self_check c w seq]
    by blast
qed

subsection \<open>Link resolution\<close>

lemma append_if_not_there_update:
  "i < length ps \<Longrightarrow> Machine_append_if_not_there a i ps = ps[i := set_add a (ps ! i)]"
  by (simp add: Machine_append_if_not_there_def set_add_def)

lemma fold_append_others:
  "i < length ps \<Longrightarrow>
   fold (\<lambda>a ps'. if a \<noteq> m then Machine_append_if_not_there a i ps' else ps') ms ps =
   ps[i := fold (\<lambda>a p. if a \<noteq> m then set_add a p else p) ms (ps ! i)]"
proof (induction ms arbitrary: ps)
  case Nil
  then show ?case by simp
next
  case (Cons a ms)
  show ?case
  proof (cases "a = m")
    case True
    then show ?thesis using Cons by simp
  next
    case False
    have "i < length (ps[i := set_add a (ps ! i)])"
      using Cons.prems by simp
    from Cons.IH [OF this] show ?thesis
      using False Cons.prems by (simp add: append_if_not_there_update)
  qed
qed

lemma set_fold_add_others:
  "set (fold (\<lambda>a p. if a \<noteq> m then set_add a p else p) ms p) = set p \<union> (set ms - {m})"
proof (induction ms arbitrary: p)
  case Nil
  show ?case by simp
next
  case (Cons a ms)
  show ?case
    using Cons [of "set_add a p"] Cons [of p] by (auto simp: set_add_def)
qed

lemma link_partition_step:
  "i < length ps \<Longrightarrow>
   fold (\<lambda>a ps'. if a \<noteq> m then Machine_append_if_not_there a i ps' else ps') ms
     (Machine_remove l i ps) = ps[i := linked_partition l ms m (ps ! i)]"
  using fold_append_others [of i "Machine_remove l i ps" m ms]
  by (simp add: Machine_remove_def linked_partition_def)

lemma fold_partitions:
  "distinct is \<Longrightarrow> \<forall>i \<in> set is. i < length ps \<Longrightarrow>
   length (fold (\<lambda>i ps'. ps'[i := G (ps' ! i)]) is ps) = length ps \<and>
   (\<forall>j<length ps. fold (\<lambda>i ps'. ps'[i := G (ps' ! i)]) is ps ! j =
      (if j \<in> set is then G (ps ! j) else ps ! j))"
proof (induction "is" arbitrary: ps)
  case Nil
  show ?case by simp
next
  case (Cons i "is")
  have 1: "distinct is" and 2: "\<forall>k \<in> set is. k < length (ps[i := G (ps ! i)])"
    and 3: "i \<notin> set is" and 4: "i < length ps"
    using Cons.prems by simp_all
  from Cons.IH [OF 1 2] show ?case
    using 3 4 by (auto simp: nth_list_update)
qed

lemma fold_cong_length:
  "(\<And>ps i. i \<in> set is \<Longrightarrow> length ps = n \<Longrightarrow> f i ps = g i ps \<and> length (g i ps) = n) \<Longrightarrow>
   length ps = n \<Longrightarrow> fold f is ps = fold g is ps"
proof (induction "is" arbitrary: ps)
  case Nil
  show ?case by simp
next
  case (Cons i "is")
  have a: "f i ps = g i ps" and b: "length (g i ps) = n"
    using Cons.prems(1) [of i ps] Cons.prems(2) by simp_all
  have "fold f is (g i ps) = fold g is (g i ps)"
    using Cons.IH [of "g i ps"] Cons.prems(1) b by simp
  then show ?case
    using a by simp
qed

lemma Machine_find_props:
  "distinct (Machine_find l ps) \<and>
   (\<forall>i. i \<in> set (Machine_find l ps) \<longleftrightarrow> i < length ps \<and> l \<in> set (ps ! i))"
  by (auto simp: Machine_find_def)

lemma link_machine_partitions:
  "length (link_machine l ms m ps) = length ps \<and>
   (\<forall>j<length ps. link_machine l ms m ps ! j =
      (if l \<in> set (ps ! j) then linked_partition l ms m (ps ! j) else ps ! j))"
proof -
  let ?is = "Machine_find l ps"
  let ?f = "\<lambda>i ps'. fold (\<lambda>a ps''. if a \<noteq> m then Machine_append_if_not_there a i ps'' else ps'') ms
     (Machine_remove l i ps')"
  let ?g = "\<lambda>i ps'. ps'[i := linked_partition l ms m (ps' ! i)]"
  have eq: "fold ?f ?is ps = fold ?g ?is ps"
  proof (rule fold_cong_length [where n = "length ps"])
    fix ps' :: "'a list list" and i
    assume "i \<in> set ?is" and "length ps' = length ps"
    then have "i < length ps'"
      using Machine_find_props [of l ps] by simp
    then show "?f i ps' = ?g i ps' \<and> length (?g i ps') = length ps"
      using link_partition_step [of i ps' m ms l] \<open>length ps' = length ps\<close> by simp
  qed simp
  have "distinct ?is" and "\<forall>i \<in> set ?is. i < length ps"
    using Machine_find_props [of l ps] by simp_all
  from fold_partitions [OF this, of "linked_partition l ms m"] show ?thesis
    unfolding link_machine_def eq using Machine_find_props [of l ps] by simp
qed

lemma fold_heap_update:
  "distinct xs \<Longrightarrow>
   fold (\<lambda>m h'. h'(m := F m (h' m))) xs h = (\<lambda>x. if x \<in> set xs then F x (h x) else h x)"
proof (induction xs arbitrary: h)
  case Nil
  show ?case by simp
next
  case (Cons a xs)
  have "distinct xs" and "a \<notin> set xs"
    using Cons.prems by simp_all
  then show ?case
    using Cons.IH [of "h(a := F a (h a))"] by (auto simp: fun_eq_iff)
qed

lemma link_heap:
  "distinct ms \<Longrightarrow>
   link l ms h = (\<lambda>x. if x \<in> set ms then link_machine l ms x (h x) else h x)"
  unfolding link_def by (rule fold_heap_update)

lemma link_scan_props:
  "snd (link_scan h lk) = map fst (filter (\<lambda>e. 1 < length (snd e)) lk) \<and>
   fst (link_scan h lk) = fold (\<lambda>e. link (fst e) (snd e)) (filter (\<lambda>e. 1 < length (snd e)) lk) h"
  by (induction h lk rule: link_scan.induct) (simp_all add: Let_def)

lemma delete_filter: "AList.delete k lk = filter (\<lambda>e. fst e \<noteq> k) lk"
  by (induction lk) auto

lemma del_all_filter:
  "set ls \<subseteq> fst ` set lk \<Longrightarrow> distinct ls \<Longrightarrow>
   del_all ls lk = Inr (filter (\<lambda>e. fst e \<notin> set ls) lk)"
proof (induction ls arbitrary: lk)
  case Nil
  show ?case by simp
next
  case (Cons l ls)
  have a: "l \<in> fst ` set lk" and b: "l \<notin> set ls" and c: "distinct ls"
    using Cons.prems by simp_all
  have "set ls \<subseteq> fst ` set (AList.delete l lk)"
  proof
    fix x
    assume x: "x \<in> set ls"
    then obtain e where e: "e \<in> set lk" "x = fst e"
      using Cons.prems(1) by auto
    have "x \<noteq> l"
      using x b by auto
    then have "e \<in> set (AList.delete l lk)"
      using e by (simp add: delete_filter)
    then show "x \<in> fst ` set (AList.delete l lk)"
      using e(2) by (rule rev_image_eqI)
  qed
  from Cons.IH [OF this c] show ?case
    using a by (simp add: delete_filter conj_commute)
qed

lemma filter_keys_of_filter:
  assumes "distinct (map fst lk)"
  shows "filter (\<lambda>e. fst e \<notin> set (map fst (filter P lk))) lk = filter (\<lambda>e. \<not> P e) lk"
proof (rule filter_cong [OF refl])
  fix e
  assume e: "e \<in> set lk"
  have uniq: "fst e' = fst e \<Longrightarrow> e' \<in> set lk \<Longrightarrow> e' = e" for e'
    using assms e by (meson distinct_map inj_onD)
  have "(fst e \<in> fst ` {e' \<in> set lk. P e'}) = P e"
  proof
    assume "fst e \<in> fst ` {e' \<in> set lk. P e'}"
    then obtain e' where "e' \<in> set lk" "P e'" "fst e = fst e'"
      by (elim imageE) auto
    then show "P e"
      using uniq [of e'] by simp
  next
    assume "P e"
    then have "e \<in> {e' \<in> set lk. P e'}"
      using e by simp
    then show "fst e \<in> fst ` {e' \<in> set lk. P e'}"
      by (rule imageI)
  qed
  then show "(fst e \<notin> set (map fst (filter P lk))) = (\<not> P e)"
    by simp
qed

lemma link_step_result:
  assumes "distinct (map fst lk)"
  shows "link_step (h, lk) =
     Inr (fold (\<lambda>e. link (fst e) (snd e)) (filter (\<lambda>e. 1 < length (snd e)) lk) h,
          filter (\<lambda>e. \<not> 1 < length (snd e)) lk)"
proof -
  let ?P = "\<lambda>e :: 'a \<times> 'a list. 1 < length (snd e)"
  let ?ls = "map fst (filter ?P lk)"
  have "set ?ls \<subseteq> fst ` set lk"
    by auto
  moreover have "distinct ?ls"
    using assms by (simp add: distinct_map_filter)
  ultimately have "del_all ?ls lk = Inr (filter (\<lambda>e. fst e \<notin> set ?ls) lk)"
    by (rule del_all_filter)
  then have "del_all ?ls lk = Inr (filter (\<lambda>e. \<not> ?P e) lk)"
    unfolding filter_keys_of_filter [OF assms] .
  then show ?thesis
    using link_scan_props [of h lk] by (simp add: link_step_def Let_def)
qed

lemma map_of_filter_unresolved:
  "distinct (map fst lk) \<Longrightarrow> map_of lk l = Some ms \<Longrightarrow>
   map_of (filter (\<lambda>e. \<not> 1 < length (snd e)) lk) l = (if 1 < length ms then None else Some ms)"
proof (induction lk)
  case Nil
  then show ?case by simp
next
  case (Cons e lk)
  show ?case
  proof (cases "fst e = l")
    case True
    then have ms: "snd e = ms"
      using Cons.prems(2) by (cases e) simp
    have "l \<notin> fst ` set lk"
      using Cons.prems(1) True by auto
    then have "map_of (filter (\<lambda>e. \<not> 1 < length (snd e)) lk) l = None"
      by (auto simp: map_of_eq_None_iff)
    then show ?thesis
      using True ms by (cases e) auto
  next
    case False
    then have "map_of lk l = Some ms"
      using Cons.prems(2) by (cases e) auto
    then show ?thesis
      using Cons.IH Cons.prems(1) False by (cases e) auto
  qed
qed

lemma set_linked_partition:
  "distinct p \<Longrightarrow> set (linked_partition l ms m p) = set p - {l} \<union> (set ms - {m})"
  by (simp add: linked_partition_def set_fold_add_others)

lemma link_effect:
  assumes "distinct ms" and "i < length (h m)"
  shows "length (link l ms h m) = length (h m)"
    and "m \<notin> set ms \<Longrightarrow> link l ms h m = h m"
    and "l \<notin> set (h m ! i) \<Longrightarrow> link l ms h m ! i = h m ! i"
    and "m \<in> set ms \<Longrightarrow> l \<in> set (h m ! i) \<Longrightarrow> distinct (h m ! i) \<Longrightarrow>
         set (link l ms h m ! i) = set (h m ! i) - {l} \<union> (set ms - {m})"
proof -
  have lm: "length (link_machine l ms m (h m)) = length (h m)"
    "link_machine l ms m (h m) ! i =
       (if l \<in> set (h m ! i) then linked_partition l ms m (h m ! i) else h m ! i)"
    using link_machine_partitions [of l ms m "h m"] assms(2) by simp_all
  show "length (link l ms h m) = length (h m)"
    using lm(1) by (simp add: link_heap [OF assms(1)])
  show "m \<notin> set ms \<Longrightarrow> link l ms h m = h m"
    by (simp add: link_heap [OF assms(1)])
  show "l \<notin> set (h m ! i) \<Longrightarrow> link l ms h m ! i = h m ! i"
    using lm(2) by (simp add: link_heap [OF assms(1)])
  show "m \<in> set ms \<Longrightarrow> l \<in> set (h m ! i) \<Longrightarrow> distinct (h m ! i) \<Longrightarrow>
         set (link l ms h m ! i) = set (h m ! i) - {l} \<union> (set ms - {m})"
    using lm(2) by (simp add: link_heap [OF assms(1)] set_linked_partition)
qed


lemma link7:
  "link 7 [2, 3] heap7 2 = [[], [3]]" "link 7 [2, 3] heap7 3 = [[], [2], [8]]"
  by code_simp+


text \<open>
  C7. For a linking map (a dictionary: no key twice) and a heap, the linking step calls
  \<open>_link\<close> once for each anchor held by more than one unit, with the set of its
  holders, in the order of the map, and for no other anchor; it then removes exactly
  these anchors from the map, and an anchor held by fewer than two units stays in the
  map with its holder. A call of \<open>_link\<close> for an anchor \<open>l\<close> and its holders \<open>ms\<close>
  changes, in each holder, the partitions that hold \<open>l\<close> and nothing else: such a
  partition (an ordered set) loses \<open>l\<close> and gets every other holder, so that it does
  not hold \<open>l\<close> any more (unless \<open>l\<close> is itself one of the other holders) and it holds
  every other holder; units that are not holders are untouched.
\<close>

theorem link_step_resolves:
  fixes h :: "'u heap"
  assumes "distinct (map fst lk)"
  shows "link_step (h, lk) =
           Inr (fold (\<lambda>e. link (fst e) (snd e)) (filter (\<lambda>e. 1 < length (snd e)) lk) h,
                filter (\<lambda>e. \<not> 1 < length (snd e)) lk) \<and>
         snd (link_scan h lk) = map fst (filter (\<lambda>e. 1 < length (snd e)) lk) \<and>
         distinct (snd (link_scan h lk)) \<and>
         (\<forall>l ms. map_of lk l = Some ms \<longrightarrow>
            map_of (filter (\<lambda>e. \<not> 1 < length (snd e)) lk) l =
              (if 1 < length ms then None else Some ms)) \<and>
         (\<forall>l ms (h' :: 'u heap) m i.
            distinct ms \<and> m \<in> set ms \<and> i < length (h' m) \<and> l \<in> set (h' m ! i) \<and>
              distinct (h' m ! i) \<longrightarrow>
            length (link l ms h' m) = length (h' m) \<and>
            set (link l ms h' m ! i) = set (h' m ! i) - {l} \<union> (set ms - {m}) \<and>
            (l \<notin> set ms \<longrightarrow> l \<notin> set (link l ms h' m ! i)) \<and>
            (\<forall>m' \<in> set ms. m' \<noteq> m \<longrightarrow> m' \<in> set (link l ms h' m ! i))) \<and>
         (\<forall>l ms (h' :: 'u heap) m i.
            distinct ms \<and> i < length (h' m) \<and> l \<notin> set (h' m ! i) \<longrightarrow>
            link l ms h' m ! i = h' m ! i) \<and>
         (\<forall>l ms (h' :: 'u heap) m. distinct ms \<and> m \<notin> set ms \<longrightarrow> link l ms h' m = h' m)"
proof (intro conjI allI impI ballI)
  show "link_step (h, lk) =
           Inr (fold (\<lambda>e. link (fst e) (snd e)) (filter (\<lambda>e. 1 < length (snd e)) lk) h,
                filter (\<lambda>e. \<not> 1 < length (snd e)) lk)"
    by (rule link_step_result [OF assms])
  show "snd (link_scan h lk) = map fst (filter (\<lambda>e. 1 < length (snd e)) lk)"
    using link_scan_props [of h lk] by simp
  show "distinct (snd (link_scan h lk))"
    using link_scan_props [of h lk] assms by (simp add: distinct_map_filter)
next
  fix l ms
  assume "map_of lk l = Some ms"
  then show "map_of (filter (\<lambda>e. \<not> 1 < length (snd e)) lk) l =
      (if 1 < length ms then None else Some ms)"
    by (rule map_of_filter_unresolved [OF assms])
next
  fix l :: 'u and ms :: "'u list" and h' :: "'u heap" and m i
  assume a: "distinct ms \<and> m \<in> set ms \<and> i < length (h' m) \<and> l \<in> set (h' m ! i) \<and>
      distinct (h' m ! i)"
  then have d: "distinct ms" and i: "i < length (h' m)"
    by simp_all
  show "length (link l ms h' m) = length (h' m)"
    using link_effect(1) [of ms i h' m l] d i by simp
  show s: "set (link l ms h' m ! i) = set (h' m ! i) - {l} \<union> (set ms - {m})"
    using link_effect(4) [of ms i h' m l] a by simp
  show "l \<notin> set (link l ms h' m ! i)" if "l \<notin> set ms"
    unfolding s using that by simp
  show "m' \<in> set (link l ms h' m ! i)" if "m' \<in> set ms" "m' \<noteq> m" for m'
    unfolding s using that by simp
next
  fix l :: 'u and ms :: "'u list" and h' :: "'u heap" and m i
  assume a: "distinct ms \<and> i < length (h' m) \<and> l \<notin> set (h' m ! i)"
  then show "link l ms h' m ! i = h' m ! i"
    using link_effect(3) [of ms i h' m l] by simp
next
  fix l :: 'u and ms :: "'u list" and h' :: "'u heap" and m
  assume a: "distinct ms \<and> m \<notin> set ms"
  have "link l ms h' = (\<lambda>x. if x \<in> set ms then link_machine l ms x (h' x) else h' x)"
    using a by (simp add: link_heap)
  then show "link l ms h' m = h' m"
    using a by simp
qed

text \<open>
  The anchor \<open>7\<close> is held by the units \<open>2\<close> and \<open>3\<close>: one call of \<open>_link\<close>, which
  connects the two units, and the anchor leaves the map; the anchor \<open>8\<close>, held by the
  unit \<open>3\<close> alone, stays.
\<close>

theorem link_step_resolves_witness:
  "distinct (map fst linking7) \<and>
   snd (link_scan heap7 linking7) = [7] \<and>
   link_step (heap7, linking7) = Inr (link 7 [2, 3] heap7, [(8, [3])]) \<and>
   link 7 [2, 3] heap7 2 = [[], [3]] \<and>
   link 7 [2, 3] heap7 3 = [[], [2], [8]]"
proof -
  have d: "distinct (map fst linking7)"
    by (simp add: linking7_def)
  have f: "filter (\<lambda>e. 1 < length (snd e)) linking7 = [(7, [2, 3])]"
    "filter (\<lambda>e. \<not> 1 < length (snd e)) linking7 = [(8, [3])]"
    by (simp_all add: linking7_def)
  note t = link_step_resolves [OF d, of heap7, unfolded f]
  have 1: "link_step (heap7, linking7) = Inr (link 7 [2, 3] heap7, [(8, [3])])"
    using conjunct1 [OF t] by simp
  have 2: "snd (link_scan heap7 linking7) = [7]"
    using conjunct1 [OF conjunct2 [OF t]] by simp
  show ?thesis
    using d 1 2 link7 by simp
qed

subsection \<open>When the loop stops\<close>

lemma body_last_active: "body order L st = Inr st' \<Longrightarrow> last_active st' = last_active st"
  by (auto simp: body_def Let_def split: sum.splits)

lemma while_loop_returns_if:
  "iterations order L n st = Some st' \<Longrightarrow>
   unexpanded st' = [] \<and> fin = st' \<or>
   unexpanded st' \<noteq> [] \<and> body order L st' = Inr fin \<and> active_len L (world fin) = last_active fin \<Longrightarrow>
   while_loop order L st = Some (Inr fin)"
proof (induction n arbitrary: st)
  case 0
  then have "st' = st" by simp
  then show ?case
    using "0.prems"(2) by (subst while_loop.simps) auto
next
  case (Suc n)
  from Suc.prems(1) obtain st1 where s: "unexpanded st \<noteq> []" "body order L st = Inr st1"
    "active_len L (world st1) \<noteq> last_active st1"
    "iterations order L n (st1\<lparr>last_active := active_len L (world st1)\<rparr>) = Some st'"
    by (auto split: if_splits sum.splits)
  have "while_loop order L st = while_loop order L (st1\<lparr>last_active := active_len L (world st1)\<rparr>)"
    using s(1,2,3) by (subst while_loop.simps) simp
  then show ?case
    using Suc.IH [OF s(4) Suc.prems(2)] by simp
qed

lemma while_loop_returns_only_if:
  assumes "while_loop order L st = Some r"
  shows "\<forall>fin. r = Inr fin \<longrightarrow>
     (\<exists>n st'. iterations order L n st = Some st' \<and>
       (unexpanded st' = [] \<and> fin = st' \<or>
        unexpanded st' \<noteq> [] \<and> body order L st' = Inr fin \<and>
          active_len L (world fin) = last_active fin))"
proof (rule while_loop.raw_induct [where P = "\<lambda>order L st r. \<forall>fin. r = Inr fin \<longrightarrow>
     (\<exists>n st'. iterations order L n st = Some st' \<and>
       (unexpanded st' = [] \<and> fin = st' \<or>
        unexpanded st' \<noteq> [] \<and> body order L st' = Inr fin \<and>
          active_len L (world fin) = last_active fin))", OF _ assms])
  fix f :: "('a list \<Rightarrow> 'a list) \<Rightarrow> ('a, 'b, 'c) lexicon \<Rightarrow> ('a, 'b) sa_state
      \<Rightarrow> (error + ('a, 'b) sa_state) option"
  fix order L st r
  assume IH: "\<And>order L st r. f order L st = Some r \<Longrightarrow> \<forall>fin. r = Inr fin \<longrightarrow>
     (\<exists>n st'. iterations order L n st = Some st' \<and>
       (unexpanded st' = [] \<and> fin = st' \<or>
        unexpanded st' \<noteq> [] \<and> body order L st' = Inr fin \<and>
          active_len L (world fin) = last_active fin))"
  assume eq: "(if \<not> 0 < length (unexpanded st) then Some (Inr st)
      else case body order L st of
             Inl e \<Rightarrow> Some (Inl e)
           | Inr st' \<Rightarrow>
               if active_len L (world st') = last_active st' then Some (Inr st')
               else f order L (st'\<lparr>last_active := active_len L (world st')\<rparr>)) = Some r"
  show "\<forall>fin. r = Inr fin \<longrightarrow>
     (\<exists>n st'. iterations order L n st = Some st' \<and>
       (unexpanded st' = [] \<and> fin = st' \<or>
        unexpanded st' \<noteq> [] \<and> body order L st' = Inr fin \<and>
          active_len L (world fin) = last_active fin))"
  proof (intro allI impI)
    fix fin
    assume r: "r = Inr fin"
    show "\<exists>n st'. iterations order L n st = Some st' \<and>
       (unexpanded st' = [] \<and> fin = st' \<or>
        unexpanded st' \<noteq> [] \<and> body order L st' = Inr fin \<and>
          active_len L (world fin) = last_active fin)"
    proof (cases "unexpanded st = []")
      case True
      then have "fin = st"
        using eq r by simp
      then have "iterations order L 0 st = Some st \<and> unexpanded st = [] \<and> fin = st"
        using True by simp
      then show ?thesis by blast
    next
      case False
      show ?thesis
      proof (cases "body order L st")
        case (Inl e)
        then show ?thesis
          using eq r False by simp
      next
        case (Inr st1)
        show ?thesis
        proof (cases "active_len L (world st1) = last_active st1")
          case True
          then have "fin = st1"
            using eq r False Inr by simp
          then have "iterations order L 0 st = Some st \<and> unexpanded st \<noteq> [] \<and>
              body order L st = Inr fin \<and> active_len L (world fin) = last_active fin"
            using False Inr True by simp
          then show ?thesis by blast
        next
          case neq: False
          let ?st2 = "st1\<lparr>last_active := active_len L (world st1)\<rparr>"
          have "f order L ?st2 = Some r"
            using eq False Inr neq by simp
          then have "\<forall>fin. r = Inr fin \<longrightarrow>
             (\<exists>n st'. iterations order L n ?st2 = Some st' \<and>
               (unexpanded st' = [] \<and> fin = st' \<or>
                unexpanded st' \<noteq> [] \<and> body order L st' = Inr fin \<and>
                  active_len L (world fin) = last_active fin))"
            by (rule IH)
          with r obtain n st'
            where n: "iterations order L n ?st2 = Some st'"
              "unexpanded st' = [] \<and> fin = st' \<or>
               unexpanded st' \<noteq> [] \<and> body order L st' = Inr fin \<and>
                 active_len L (world fin) = last_active fin"
            by blast
          have "iterations order L (Suc n) st = Some st'"
            using n(1) False Inr neq by simp
          then show ?thesis
            using n(2) by blast
        qed
      qed
    qed
  qed
qed

lemma while_loop_terminates:
  assumes H: "\<And>st st'. body order L st = Inr st' \<Longrightarrow>
      active_len L (world st) \<le> active_len L (world st') \<and> active_len L (world st') \<le> N"
  shows "last_active st = active_len L (world st) \<Longrightarrow> \<exists>r. while_loop order L st = Some r"
proof (induction "N - last_active st" arbitrary: st rule: less_induct)
  case less
  show ?case
  proof (cases "unexpanded st = []")
    case True
    then show ?thesis
      by (subst while_loop.simps) simp
  next
    case False
    show ?thesis
    proof (cases "body order L st")
      case (Inl e)
      then show ?thesis
        using False by (subst while_loop.simps) simp
    next
      case (Inr st1)
      show ?thesis
      proof (cases "active_len L (world st1) = last_active st1")
        case True
        then show ?thesis
          using False Inr by (subst while_loop.simps) simp
      next
        case neq: False
        let ?st2 = "st1\<lparr>last_active := active_len L (world st1)\<rparr>"
        have la: "last_active st1 = last_active st"
          using Inr by (rule body_last_active)
        have "active_len L (world st) \<le> active_len L (world st1)" "active_len L (world st1) \<le> N"
          using H [OF Inr] by simp_all
        then have "N - last_active ?st2 < N - last_active st"
          using neq la less.prems by simp
        moreover have "last_active ?st2 = active_len L (world ?st2)"
          by simp
        ultimately have "\<exists>r. while_loop order L ?st2 = Some r"
          by (rule less.hyps)
        moreover have "while_loop order L st = while_loop order L ?st2"
          using False Inr neq by (subst while_loop.simps) simp
        ultimately show ?thesis by simp
      qed
    qed
  qed
qed

lemma lex_same_entry_fields:
  "get_unexpanded lex_same_entry w = filter (\<lambda>u. u \<notin> set (expanded (lexst w))) (known (lexst w))"
  "expand lex_same_entry u w = w\<lparr>lexst := (lexst w)\<lparr>expanded := expanded (lexst w) @ [u]\<rparr>\<rparr>"
  "is_deep_case lex_same_entry w u = False"
  "activate lex_same_entry w = w\<lparr>lexst := (lexst w)\<lparr>known := known (lexst w) @ [length (known (lexst w))]\<rparr>\<rparr>"
  "active_len lex_same_entry w = min (entries (lexst w)) 2"
  "constructions lex_same_entry w = []"
  by (simp_all add: lex_same_entry_def lex_base_def)

lemma lex_new_entry_fields:
  "get_unexpanded lex_new_entry w = filter (\<lambda>u. u \<notin> set (expanded (lexst w))) (known (lexst w))"
  "expand lex_new_entry u w = w\<lparr>lexst := (lexst w)\<lparr>expanded := expanded (lexst w) @ [u]\<rparr>\<rparr>"
  "is_deep_case lex_new_entry w u = False"
  "activate lex_new_entry w = w\<lparr>lexst := (lexst w)\<lparr>entries := Suc (entries (lexst w))\<rparr>\<rparr>"
  "active_len lex_new_entry w = min (entries (lexst w)) 2"
  "constructions lex_new_entry w = []"
  by (simp_all add: lex_new_entry_def lex_base_def)

lemma link_step_empty: "link_step (h, []) = Inr (h, [])"
  by (simp add: link_step_def)

lemma same_initial: "initial_state lex_same_entry world_ex = state0"
  by (simp add: initial_state_def lex_same_entry_fields world_ex_def state0_def)

lemma new_initial: "initial_state lex_new_entry world_ex = state0"
  by (simp add: initial_state_def lex_new_entry_fields world_ex_def state0_def)

lemma same_body: "body (\<lambda>xs. xs) lex_same_entry state0 = Inr state_same"
  by (simp add: state0_def state_same_def body_def expansion_def expand_machine_def
      link_step_empty lex_same_entry_fields world_ex_def Let_def)

lemma new_body: "body (\<lambda>xs. xs) lex_new_entry state0 = Inr (state_new\<lparr>last_active := 1\<rparr>)"
  by (simp add: state0_def state_new_def body_def expansion_def expand_machine_def
      link_step_empty lex_new_entry_fields world_ex_def Let_def)

lemma same_loop: "while_loop (\<lambda>xs. xs) lex_same_entry state0 = Some (Inr state_same)"
  by (subst while_loop.simps)
    (simp add: same_body, simp add: state0_def state_same_def lex_same_entry_fields)

lemma new_iterations: "iterations (\<lambda>xs. xs) lex_new_entry (Suc 0) state0 = Some state_new"
  unfolding iterations.simps new_body
  by (simp add: state0_def) (simp add: state_new_def lex_new_entry_fields)

lemma expansion_entries:
  "(\<And>u w. entries (lexst (expand L u w)) = entries (lexst w)) \<Longrightarrow>
   entries (lexst (fst (expansion L un wl))) = entries (lexst (fst wl))"
proof (induction un arbitrary: wl)
  case Nil
  show ?case by (simp add: expansion_def)
next
  case (Cons m un)
  have "entries (lexst (fst (expand_machine L m wl))) = entries (lexst (fst wl))"
    using Cons.prems by (simp add: expand_machine_def Let_def)
  then show ?case
    using Cons.IH [of "expand_machine L m wl"] Cons.prems by (simp add: expansion_def)
qed

lemma new_entry_step:
  "body order lex_new_entry st = Inr st' \<Longrightarrow>
   entries (lexst (world st')) = Suc (entries (lexst (world st)))"
proof -
  assume b: "body order lex_new_entry st = Inr st'"
  let ?wl = "expansion lex_new_entry (unexpanded st) (world st, linking st)"
  have w: "entries (lexst (fst ?wl)) = entries (lexst (world st))"
    using expansion_entries [of lex_new_entry "unexpanded st" "(world st, linking st)"]
    by (simp add: lex_new_entry_fields)
  from b obtain hl where "st' = st\<lparr>world := activate lex_new_entry ((fst ?wl)\<lparr>heap := fst hl\<rparr>),
      unexpanded := get_unexpanded lex_new_entry (activate lex_new_entry ((fst ?wl)\<lparr>heap := fst hl\<rparr>)),
      sentence := sentence st, linking := snd hl\<rparr>"
    by (auto simp: body_def Let_def lex_new_entry_fields(6) split: sum.splits)
  then show ?thesis
    using w by (simp add: lex_new_entry_fields)
qed

lemma new_entry_bounded:
  "body order lex_new_entry st = Inr st' \<Longrightarrow>
   active_len lex_new_entry (world st) \<le> active_len lex_new_entry (world st') \<and>
   active_len lex_new_entry (world st') \<le> 2"
  using new_entry_step [of order st st'] by (simp add: lex_new_entry_fields)

lemma new_loop: "while_loop (\<lambda>xs. xs) lex_new_entry state0 = Some (Inr state_new)"
  by (rule while_loop_returns_if [OF new_iterations]) (simp add: state_new_def)


text \<open>
  C1, as claimed, fails: the loop stops as soon as one of the two conditions holds. Over
  \<open>lex_same_entry\<close> the first pass leaves the number of active entries at \<open>1\<close> and
  the loop ends, while the unit \<open>1\<close> is unexpanded; over \<open>lex_new_entry\<close> the first
  pass raises the number of active entries from \<open>1\<close> to \<open>2\<close>, no unexpanded unit
  remains, and the loop ends without a pass in which the number is unchanged.
\<close>

theorem loop_stops_on_one_condition:
  "while_loop (\<lambda>xs. xs) lex_same_entry (initial_state lex_same_entry world_ex) = Some (Inr state_same) \<and>
   unexpanded state_same = [1] \<and>
   while_loop (\<lambda>xs. xs) lex_new_entry (initial_state lex_new_entry world_ex) = Some (Inr state_new) \<and>
   active_len lex_new_entry world_ex = 1 \<and> active_len lex_new_entry (world state_new) = 2"
proof -
  have "unexpanded state_same = [1]"
    by (simp add: state_same_def)
  moreover have "active_len lex_new_entry world_ex = 1" "active_len lex_new_entry (world state_new) = 2"
    by (simp_all add: lex_new_entry_fields world_ex_def state_new_def)
  ultimately show ?thesis
    using same_loop new_loop by (simp add: same_initial new_initial)
qed


text \<open>
  C1, amended. The loop returns the state \<open>fin\<close> exactly when, after some number of
  passes each of which began with unexpanded units and changed the number of active
  entries, either no unexpanded unit remains (and \<open>fin\<close> is the state reached), or one
  more pass leads to \<open>fin\<close> and leaves the number of active entries as it was: either
  condition alone stops the loop, and it goes on only while unexpanded units remain and
  the number has changed. When no pass lowers the number of active entries and the
  number never exceeds a bound \<open>N\<close>, \<open>activation_loop\<close> returns.
\<close>

theorem loop_stops_and_terminates:
  "((while_loop order L st = Some (Inr fin)) =
      (\<exists>n st'. iterations order L n st = Some st' \<and>
         (unexpanded st' = [] \<and> fin = st' \<or>
          unexpanded st' \<noteq> [] \<and> body order L st' = Inr fin \<and>
            active_len L (world fin) = last_active fin))) \<and>
   ((\<forall>s s'. body order L s = Inr s' \<longrightarrow>
        active_len L (world s) \<le> active_len L (world s') \<and> active_len L (world s') \<le> N) \<longrightarrow>
    (\<exists>r. activation_loop order L w = Some r))"
proof (intro conjI impI)
  show "(while_loop order L st = Some (Inr fin)) =
      (\<exists>n st'. iterations order L n st = Some st' \<and>
         (unexpanded st' = [] \<and> fin = st' \<or>
          unexpanded st' \<noteq> [] \<and> body order L st' = Inr fin \<and>
            active_len L (world fin) = last_active fin))"
    using while_loop_returns_only_if [of order L st "Inr fin"]
      while_loop_returns_if [of order L _ st _ fin]
    by blast
next
  assume H: "\<forall>s s'. body order L s = Inr s' \<longrightarrow>
        active_len L (world s) \<le> active_len L (world s') \<and> active_len L (world s') \<le> N"
  have "last_active (initial_state L w) = active_len L (world (initial_state L w))"
    by (simp add: initial_state_def)
  then obtain r where "while_loop order L (initial_state L w) = Some r"
    using while_loop_terminates [of order L N "initial_state L w"] H by blast
  then show "\<exists>r. activation_loop order L w = Some r"
    by (cases r) (simp_all add: activation_loop_def)
qed


text \<open>
  Over \<open>lex_new_entry\<close>, where the number of active entries never falls and is at most
  \<open>2\<close>, the loop returns: after one pass no unexpanded unit remains.
\<close>

theorem loop_stops_and_terminates_witness:
  "(\<exists>r. activation_loop (\<lambda>xs. xs) lex_new_entry world_ex = Some r) \<and>
   iterations (\<lambda>xs. xs) lex_new_entry 1 (initial_state lex_new_entry world_ex) = Some state_new \<and>
   unexpanded state_new = [] \<and>
   while_loop (\<lambda>xs. xs) lex_new_entry (initial_state lex_new_entry world_ex) = Some (Inr state_new)"
proof -
  note t = loop_stops_and_terminates [of "\<lambda>xs. xs" lex_new_entry
      "initial_state lex_new_entry world_ex"
      state_new 2 world_ex]
  have H: "\<forall>s s'. body (\<lambda>xs. xs) lex_new_entry s = Inr s' \<longrightarrow>
      active_len lex_new_entry (world s) \<le> active_len lex_new_entry (world s') \<and>
      active_len lex_new_entry (world s') \<le> 2"
    using new_entry_bounded by blast
  have 1: "\<exists>r. activation_loop (\<lambda>xs. xs) lex_new_entry world_ex = Some r"
    using conjunct2 [OF t] H by blast
  have i: "iterations (\<lambda>xs. xs) lex_new_entry 1 (initial_state lex_new_entry world_ex) = Some state_new"
    using new_iterations by (simp add: new_initial)
  have u: "unexpanded state_new = []"
    by (simp add: state_new_def)
  have "\<exists>n st'. iterations (\<lambda>xs. xs) lex_new_entry n (initial_state lex_new_entry world_ex) = Some st' \<and>
         (unexpanded st' = [] \<and> state_new = st' \<or>
          unexpanded st' \<noteq> [] \<and> body (\<lambda>xs. xs) lex_new_entry st' = Inr state_new \<and>
            active_len lex_new_entry (world state_new) = last_active state_new)"
    using i u by blast
  then have 2: "while_loop (\<lambda>xs. xs) lex_new_entry (initial_state lex_new_entry world_ex) =
      Some (Inr state_new)"
    using conjunct1 [OF t] by simp
  show ?thesis
    using 1 2 i u by simp
qed

subsection \<open>The constructions in one pass of the loop\<close>















end
